theory Spec2Isabelle
  imports Main "HOL-Library.Word" "HOL-Library.Sublist" "HOL-Library.AList"
begin

section \<open>JavaScript values and strings\<close>

text \<open>
  A JavaScript string is a sequence of UTF-16 code units; \<open>length\<close>, \<open>slice\<close>,
  \<open>substring\<close> and \<open>startsWith\<close> count code units. \<open>u16\<close> embeds an ASCII literal.
\<close>

type_synonym jsstring = "16 word list"

definition u16 :: "string \<Rightarrow> jsstring" where
  "u16 s = map (\<lambda>c. of_nat (of_char c)) s"

text \<open>
  \<open>String.prototype.trim\<close> removes the ECMAScript WhiteSpace and LineTerminator code
  units from both ends.
\<close>

definition isWhiteSpace :: "16 word \<Rightarrow> bool" where
  "isWhiteSpace c \<longleftrightarrow>
     c = 0x09 \<or> c = 0x0A \<or> c = 0x0B \<or> c = 0x0C \<or> c = 0x0D \<or> c = 0x20 \<or> c = 0xA0 \<or>
     c = 0x1680 \<or> (0x2000 \<le> c \<and> c \<le> 0x200A) \<or> c = 0x2028 \<or> c = 0x2029 \<or>
     c = 0x202F \<or> c = 0x205F \<or> c = 0x3000 \<or> c = 0xFEFF"

definition trim :: "jsstring \<Rightarrow> jsstring" where
  "trim s = rev (dropWhile isWhiteSpace (rev (dropWhile isWhiteSpace s)))"

text \<open>\<open>s.split(/\r?\n/)\<close>: the pieces between line feeds, a carriage return directly
  before a line feed belonging to the separator.\<close>

fun splitLines :: "jsstring \<Rightarrow> jsstring list" where
  "splitLines [] = [[]]"
| "splitLines (c # cs) =
     (if c = 0x0A then [] # splitLines cs
      else if c = 0x0D \<and> cs \<noteq> [] \<and> hd cs = 0x0A then [] # splitLines (tl cs)
      else (case splitLines cs of
              [] \<Rightarrow> [[c]]
            | l # ls \<Rightarrow> (c # l) # ls))"

text \<open>
  Values as \<open>JSON.parse\<close> produces them, with \<open>undefined\<close> for an absent property.
  A number is kept as the string that \<open>String\<close> gives it (\<open>1\<close>, \<open>-2.5\<close>,
  \<open>1e+21\<close>): that string determines the number but for the sign of zero, which no
  operation of the program tells apart. An object is its list of own properties.
\<close>

datatype jsval =
    JUndefined
  | JNull
  | JBool bool
  | JNum jsstring
  | JStr jsstring
  | JArr "jsval list"
  | JObj "(jsstring \<times> jsval) list"

text \<open>Property read \<open>v.k\<close> on a value that is neither \<open>null\<close> nor \<open>undefined\<close>, for
  the property names the program uses (none of them is inherited or an index).\<close>

fun get :: "jsval \<Rightarrow> string \<Rightarrow> jsval" where
  "get (JObj kvs) k = (case map_of kvs (u16 k) of Some v \<Rightarrow> v | None \<Rightarrow> JUndefined)"
| "get _ k = JUndefined"

fun truthy :: "jsval \<Rightarrow> bool" where
  "truthy JUndefined = False"
| "truthy JNull = False"
| "truthy (JBool b) = b"
| "truthy (JNum n) = (n \<noteq> u16 ''0'' \<and> n \<noteq> u16 ''NaN'')"
| "truthy (JStr s) = (s \<noteq> [])"
| "truthy (JArr _) = True"
| "truthy (JObj _) = True"

text \<open>\<open>v && typeof v === "object"\<close>\<close>

fun isObject :: "jsval \<Rightarrow> bool" where
  "isObject (JObj _) = True"
| "isObject (JArr _) = True"
| "isObject _ = False"

fun arrayItems :: "jsval \<Rightarrow> jsval list option" where
  "arrayItems (JArr xs) = Some xs"
| "arrayItems _ = None"

section \<open>Stream extractor\<close>

subsection \<open>Field extraction from a decoded event\<close>

fun extractSessionId :: "jsval \<Rightarrow> jsstring option" where
  "extractSessionId jsonObj =
     (if \<not> isObject jsonObj then None
      else case get jsonObj ''session_id'' of
             JStr s \<Rightarrow> (if s \<noteq> [] then Some s else None)
           | _ \<Rightarrow> None)"

text \<open>\<open>typeof x === "string" && x !== null && x !== ""\<close>, then \<open>parts.push(x)\<close>.\<close>

fun pushStr :: "jsstring list \<Rightarrow> jsval \<Rightarrow> jsstring list" where
  "pushStr parts (JStr s) = (if s \<noteq> [] then parts @ [s] else parts)"
| "pushStr parts _ = parts"

text \<open>The same with the \<open>seen\<close> set: a fragment already pushed is not pushed again.\<close>

fun pushNew :: "jsstring list \<Rightarrow> jsval \<Rightarrow> jsstring list" where
  "pushNew parts (JStr s) = (if s \<noteq> [] \<and> s \<notin> set parts then parts @ [s] else parts)"
| "pushNew parts _ = parts"

definition extractUserText :: "jsval \<Rightarrow> jsstring option" where
  "extractUserText jsonObj =
     (if \<not> isObject jsonObj then None
      else if get jsonObj ''type'' = JStr (u16 ''user'') then
        (let message = get jsonObj ''message'';
             p1 = (if truthy message \<and> truthy (get message ''content'') then
                     (case arrayItems (get message ''content'') of
                        Some items \<Rightarrow>
                          foldl (\<lambda>ps item.
                                   if isObject item
                                   then pushStr (pushStr ps (get item ''text'')) (get item ''content'')
                                   else ps) [] items
                      | None \<Rightarrow> [])
                   else []);
             p2 = (if truthy message then pushStr p1 (get message ''content'') else p1);
             p3 = pushStr p2 (get jsonObj ''content'')
         in if p3 \<noteq> [] then Some (concat p3) else None)
      else None)"

definition extractAssistantText :: "jsval \<Rightarrow> jsstring" where
  "extractAssistantText jsonObj =
     (if \<not> isObject jsonObj then []
      else if get jsonObj ''type'' = JStr (u16 ''user'') \<or> get jsonObj ''type'' = JStr (u16 ''system'')
        then []
      else if truthy (get jsonObj ''message'')
              \<and> get (get jsonObj ''message'') ''role'' = JStr (u16 ''user'')
        then []
      else
        (let message = get jsonObj ''message'';
             ty = get jsonObj ''type'';
             data = get jsonObj ''data'';
             isAssistantMsg = (truthy message \<and> get message ''role'' = JStr (u16 ''assistant''));
             p1 = (if isAssistantMsg \<and> truthy (get message ''content'') then
                     (case arrayItems (get message ''content'') of
                        Some items \<Rightarrow>
                          foldl (\<lambda>ps item.
                                   if isObject item
                                   then pushNew (pushNew ps (get item ''text'')) (get item ''content'')
                                   else ps) [] items
                      | None \<Rightarrow> [])
                   else []);
             p2 = (if isAssistantMsg then pushNew p1 (get message ''content'') else p1);
             p3 = (if ty = JStr (u16 ''assistant'') \<or> ty = JStr (u16 ''token'') then
                     pushNew (pushNew (pushNew p2 (get jsonObj ''content'')) (get jsonObj ''text''))
                             (if truthy data then get data ''content'' else JUndefined)
                   else p2);
             p4 = (if ty \<noteq> JStr (u16 ''system'') \<and> ty \<noteq> JStr (u16 ''user'')
                   then pushNew p3 (get jsonObj ''content'') else p3);
             p5 = (case arrayItems (get jsonObj ''choices'') of
                     Some choices \<Rightarrow>
                       foldl (\<lambda>ps choice.
                                if truthy choice \<and> truthy (get choice ''delta'')
                                then pushNew ps (get (get choice ''delta'') ''content'')
                                else ps) p4 choices
                   | None \<Rightarrow> p4);
             p6 = (if truthy (get jsonObj ''delta'')
                   then pushNew p5 (get (get jsonObj ''delta'') ''content'') else p5);
             p7 = (if get jsonObj ''role'' = JStr (u16 ''assistant'')
                   then pushNew p6 (get jsonObj ''content'') else p6);
             p8 = (if truthy data \<and> truthy (get data ''partial'')
                   then pushNew p7 (get (get data ''partial'') ''content'') else p7);
             p9 = pushNew p8 (get jsonObj ''partial'');
             p10 = pushNew p9 (get jsonObj ''token'');
             p11 = pushNew p10 (get jsonObj ''text'')
         in concat p11))"

subsection \<open>The filter's state and its per-event step\<close>

text \<open>
  The closure variables of \<open>pipeThroughAssistantFilter\<close> that carry data. The terminal
  rendering (box prefix, labels, colours, wrapping to the terminal width) is not modelled:
  \<open>shownUser\<close> and \<open>shownAssistant\<close> list, in order, the text fragments the filter hands
  to that rendering, and \<open>sessionIdCalls\<close> the arguments of the \<open>onSessionId\<close> callback.
\<close>

record filter_state =
  rawBuffer :: jsstring
  lastUserOutput :: jsstring
  lastAssistantOutput :: jsstring
  streamSessionId :: "jsstring option"
  knownUserPrompts :: "jsstring list"
  shownUser :: "jsstring list"
  shownAssistant :: "jsstring list"
  sessionIdCalls :: "jsstring list"

definition initialFilterState :: filter_state where
  "initialFilterState =
     \<lparr> rawBuffer = [], lastUserOutput = [], lastAssistantOutput = [],
       streamSessionId = None, knownUserPrompts = [],
       shownUser = [], shownAssistant = [], sessionIdCalls = [] \<rparr>"

text \<open>\<open>Set.prototype.add\<close> on a set iterated in insertion order.\<close>

definition setAdd :: "'a list \<Rightarrow> 'a \<Rightarrow> 'a list" where
  "setAdd xs x = (if x \<in> set xs then xs else xs @ [x])"

text \<open>The loop over \<open>knownUserPrompts\<close> that strips a leading user prompt from the
  assistant text.\<close>

fun stripKnownPrompts :: "jsstring list \<Rightarrow> jsstring \<Rightarrow> jsstring" where
  "stripKnownPrompts [] assistantText = assistantText"
| "stripKnownPrompts (userPrompt # rest) assistantText =
     (if userPrompt \<noteq> [] \<and> prefix (trim userPrompt) (trim assistantText) then
        (let stripped = trim (drop (length (trim userPrompt)) (trim assistantText))
         in if stripped = [] then [] else stripKnownPrompts rest stripped)
      else stripKnownPrompts rest assistantText)"

text \<open>\<open>text && text !== "null" && text.length > 0\<close>\<close>

definition hasText :: "jsstring \<Rightarrow> bool" where
  "hasText t \<longleftrightarrow> t \<noteq> [] \<and> t \<noteq> u16 ''null''"

definition filterKnownPrompts :: "jsstring list \<Rightarrow> jsstring \<Rightarrow> jsstring" where
  "filterKnownPrompts known assistantText =
     (if hasText assistantText then stripKnownPrompts known assistantText else assistantText)"

text \<open>
  The diff of a new cumulative text against the recorded one: the fragments shown and
  the new record.
\<close>

definition diffAgainst :: "jsstring \<Rightarrow> jsstring \<Rightarrow> jsstring list \<times> jsstring" where
  "diffAgainst lastOutput newText =
     (if prefix lastOutput newText then
        (let newPart = drop (length lastOutput) newText
         in if newPart \<noteq> [] then ([newPart], newText) else ([], lastOutput))
      else if newText \<noteq> lastOutput then ([newText], newText)
      else ([], lastOutput))"

definition assistantStep :: "jsstring \<Rightarrow> jsstring \<Rightarrow> jsstring list \<times> jsstring" where
  "assistantStep lastOutput assistantText =
     (if hasText assistantText then diffAgainst lastOutput assistantText else ([], lastOutput))"

definition processObj :: "filter_state \<Rightarrow> jsval \<Rightarrow> filter_state" where
  "processObj st obj =
     (let st1 = (case extractSessionId obj of
                   Some sid \<Rightarrow>
                     (if streamSessionId st \<noteq> Some sid
                      then st\<lparr> streamSessionId := Some sid,
                               sessionIdCalls := sessionIdCalls st @ [sid] \<rparr>
                      else st)
                 | None \<Rightarrow> st);
          st2 = (case extractUserText obj of
                   Some userText \<Rightarrow>
                     (if hasText userText then
                        (let (shown, lastOut) = diffAgainst (lastUserOutput st1) userText
                         in st1\<lparr> knownUserPrompts := setAdd (knownUserPrompts st1) (trim userText),
                                 shownUser := shownUser st1 @ shown,
                                 lastUserOutput := lastOut \<rparr>)
                      else st1)
                 | None \<Rightarrow> st1);
          assistantText = filterKnownPrompts (knownUserPrompts st2) (extractAssistantText obj);
          (shown, lastOut) = assistantStep (lastAssistantOutput st2) assistantText
      in st2\<lparr> shownAssistant := shownAssistant st2 @ shown, lastAssistantOutput := lastOut \<rparr>)"

subsection \<open>Lines, chunks and the end of the stream\<close>

text \<open>The JSON text of a line: after \<open>data:\<close> from the first brace or bracket, or the
  trimmed line when it starts with one; \<open>None\<close> for any other line.\<close>

definition isOpening :: "16 word \<Rightarrow> bool" where
  "isOpening c \<longleftrightarrow> c = 0x7B \<or> c = 0x5B"

definition jsonOfLine :: "jsstring \<Rightarrow> jsstring option" where
  "jsonOfLine line =
     (if trim line = [] then None
      else if prefix (u16 ''data:'') line \<and> (\<exists>c \<in> set line. isOpening c)
        then Some (dropWhile (\<lambda>c. \<not> isOpening c) line)
      else if trim line \<noteq> [] \<and> isOpening (hd (trim line)) then Some (trim line)
      else None)"

text \<open>\<open>JSON.parse\<close> belongs to the host; it is a parameter, \<open>Inl\<close> carrying the message
  of the exception it throws.\<close>

type_synonym json_parser = "jsstring \<Rightarrow> jsstring + jsval"

definition processLine :: "json_parser \<Rightarrow> filter_state \<Rightarrow> jsstring \<Rightarrow> filter_state" where
  "processLine JSON_parse st line =
     (case jsonOfLine line of
        None \<Rightarrow> st
      | Some jsonStr \<Rightarrow>
          (case JSON_parse jsonStr of
             Inl _ \<Rightarrow> st
           | Inr obj \<Rightarrow> processObj st obj))"

definition onData :: "json_parser \<Rightarrow> filter_state \<Rightarrow> jsstring \<Rightarrow> filter_state" where
  "onData JSON_parse st chunk =
     (let lines = splitLines (rawBuffer st @ chunk)
      in foldl (processLine JSON_parse) (st\<lparr> rawBuffer := last lines \<rparr>) (butlast lines))"

text \<open>On \<open>end\<close> the lines left in the buffer are only displayed, and their session id
  taken; the recorded assistant text does not change.\<close>

definition flushLine :: "json_parser \<Rightarrow> filter_state \<Rightarrow> jsstring \<Rightarrow> filter_state" where
  "flushLine JSON_parse st line =
     (case jsonOfLine line of
        None \<Rightarrow> st
      | Some jsonStr \<Rightarrow>
          (case JSON_parse jsonStr of
             Inl _ \<Rightarrow> st
           | Inr obj \<Rightarrow>
               (let extracted = extractAssistantText obj;
                    st1 = (case extractSessionId obj of
                             Some sid \<Rightarrow>
                               (if streamSessionId st \<noteq> Some sid
                                then st\<lparr> streamSessionId := Some sid,
                                         sessionIdCalls := sessionIdCalls st @ [sid] \<rparr>
                                else st)
                           | None \<Rightarrow> st)
                in if hasText extracted
                   then st1\<lparr> shownAssistant := shownAssistant st1 @ [extracted] \<rparr>
                   else st1)))"

text \<open>What the \<open>end\<close> handler passes to the callbacks: the calls of \<open>onText\<close> and of
  \<open>onSessionId\<close>, in order.\<close>

record filter_result =
  onTextCalls :: "jsstring list"
  onSessionIdCalls :: "jsstring list"
  finalState :: filter_state

definition onEnd :: "json_parser \<Rightarrow> filter_state \<Rightarrow> filter_result" where
  "onEnd JSON_parse st =
     (let st1 = (if trim (rawBuffer st) \<noteq> []
                 then foldl (flushLine JSON_parse) st
                        (filter (\<lambda>l. trim l \<noteq> []) (splitLines (rawBuffer st)))
                 else st)
      in \<lparr> onTextCalls = (if lastAssistantOutput st1 \<noteq> [] then [lastAssistantOutput st1] else []),
           onSessionIdCalls =
             sessionIdCalls st1 @ (case streamSessionId st1 of Some sid \<Rightarrow> [sid] | None \<Rightarrow> []),
           finalState = st1 \<rparr>)"

definition pipeThroughAssistantFilter :: "json_parser \<Rightarrow> jsstring list \<Rightarrow> filter_result" where
  "pipeThroughAssistantFilter JSON_parse chunks =
     onEnd JSON_parse (foldl (onData JSON_parse) initialFilterState chunks)"

section \<open>Conversions to string\<close>

fun showNat :: "nat \<Rightarrow> jsstring" where
  "showNat n = (if n < 10 then [of_nat (48 + n)] else showNat (n div 10) @ [of_nat (48 + n mod 10)])"

definition showInt :: "int \<Rightarrow> jsstring" where
  "showInt n = (if n < 0 then 0x2D # showNat (nat (- n)) else showNat (nat n))"

text \<open>\<open>Array.prototype.join\<close> on pieces already converted.\<close>

fun joinWith :: "jsstring \<Rightarrow> jsstring list \<Rightarrow> jsstring" where
  "joinWith sep [] = []"
| "joinWith sep [x] = x"
| "joinWith sep (x # y # ys) = x @ sep @ joinWith sep (y # ys)"

text \<open>\<open>String(v)\<close> and the conversion of a value in a template literal; \<open>None\<close> where
  it throws a \<open>TypeError\<close>. No value of a parsed document is callable, so an object
  with an own property \<open>toString\<close> cannot be converted, and neither can an array that
  holds such an object. An array joins its elements with commas, \<open>null\<close> and
  \<open>undefined\<close> elements printing as nothing.\<close>

fun toStr :: "jsval \<Rightarrow> jsstring option"
  and toStrElems :: "jsval list \<Rightarrow> jsstring list option" where
  "toStr JUndefined = Some (u16 ''undefined'')"
| "toStr JNull = Some (u16 ''null'')"
| "toStr (JBool b) = Some (if b then u16 ''true'' else u16 ''false'')"
| "toStr (JNum n) = Some n"
| "toStr (JStr s) = Some s"
| "toStr (JArr xs) = map_option (joinWith [0x2C]) (toStrElems xs)"
| "toStr (JObj kvs) =
     (if map_of kvs (u16 ''toString'') = None then Some (u16 ''[object Object]'') else None)"
| "toStrElems [] = Some []"
| "toStrElems (x # xs) =
     (case (if x = JUndefined \<or> x = JNull then Some [] else toStr x) of
        None \<Rightarrow> None
      | Some piece \<Rightarrow> map_option ((#) piece) (toStrElems xs))"

section \<open>Task queue\<close>

text \<open>What \<open>validate_config\<close> throws, and the \<open>TypeError\<close> of reading a property of
  \<open>null\<close>, of calling what is not a function and of converting to a string what cannot
  be converted.\<close>

datatype queue_error =
    TasksMissing
  | NameMissing
  | NameDuplicate
  | IdMissing
  | IdEmpty
  | IdTooLong
  | IdDuplicate
  | PromptAndSpecMissing
  | SpecFileNotStringOrArray
  | SpecFileEmptyArray
  | TypeError

definition nullish :: "jsval \<Rightarrow> bool" where
  "nullish v \<longleftrightarrow> v = JUndefined \<or> v = JNull"







text \<open>Assignment to and deletion of a property of an object.\<close>

fun setProp :: "string \<Rightarrow> jsval \<Rightarrow> jsval \<Rightarrow> jsval" where
  "setProp k v (JObj kvs) = JObj (AList.update (u16 k) v kvs)"
| "setProp k v other = other"

fun delProp :: "string \<Rightarrow> jsval \<Rightarrow> jsval" where
  "delProp k (JObj kvs) = JObj (AList.delete (u16 k) kvs)"
| "delProp k other = other"

text \<open>\<open>tasks.find((t) => t.name === taskName)\<close> for a string \<open>taskName\<close>: the position of
  the first task of that name.\<close>

fun findByName :: "jsstring \<Rightarrow> jsval list \<Rightarrow> queue_error + nat option" where
  "findByName taskName [] = Inr None"
| "findByName taskName (t # ts) =
     (if nullish t then Inl TypeError
      else if get t ''name'' = JStr taskName then Inr (Some 0)
      else (case findByName taskName ts of
              Inl e \<Rightarrow> Inl e
            | Inr None \<Rightarrow> Inr None
            | Inr (Some i) \<Rightarrow> Inr (Some (Suc i))))"

text \<open>The mutation of the task found.\<close>

definition applyStatus :: "jsval \<Rightarrow> jsstring \<Rightarrow> jsval \<Rightarrow> jsval \<Rightarrow> jsval" where
  "applyStatus task status errorMessage reportPath =
     (let t1 = setProp ''status'' (JStr status) task;
          t2 = (if truthy errorMessage then setProp ''error_message'' errorMessage t1
                else if status \<noteq> u16 ''error'' then delProp ''error_message'' t1
                else t1)
      in if truthy reportPath then setProp ''report'' reportPath t2 else t2)"

definition update_task_status ::
  "jsval list \<Rightarrow> jsstring \<Rightarrow> jsstring \<Rightarrow> jsval \<Rightarrow> jsval \<Rightarrow> queue_error + jsval list" where
  "update_task_status tasks taskName status errorMessage reportPath =
     (case findByName taskName tasks of
        Inl e \<Rightarrow> Inl e
      | Inr None \<Rightarrow> Inr tasks
      | Inr (Some i) \<Rightarrow> Inr (tasks[i := applyStatus (tasks ! i) status errorMessage reportPath]))"

text \<open>What \<open>execute_task\<close> returns, and the surroundings of a queue run: which prompt
  files exist and what executing the task at a position yields (\<open>Inl\<close> the message of
  an exception). Reading, writing and creating files succeed, and TaskEcho is not
  enabled.\<close>

record task_outcome =
  status :: jsstring
  error_message :: jsval
  reportPath :: jsval














section \<open>The host\<close>

text \<open>The \<open>TypeError\<close>s the program can run into: reading a property of \<open>null\<close> or of
  \<open>undefined\<close>, calling a property that is not a function, converting an object that
  has no primitive value, and spreading a value that is not iterable.\<close>

datatype type_error =
    ReadOfNull string
  | ReadOfUndefined string
  | NotAFunction string
  | NotPrimitive
  | NotIterable

text \<open>
  What the JavaScript engine and the installed agent contribute: \<open>JSON.parse\<close>, the
  numeric reading of a string in \<open>s > 0\<close>, the wording of the \<open>TypeError\<close>s the engine
  raises, and whether the help text of the agent lists \<open>--stream-partial-output\<close>
  (\<open>hasStreamFlag\<close>).
\<close>

record host =
  hostParse :: json_parser
  strGtZero :: "jsstring \<Rightarrow> bool"
  typeErrorMessage :: "type_error \<Rightarrow> jsstring"
  streamPartial :: bool

text \<open>\<open>v.length\<close> and \<open>v[0]\<close> on a value that is not \<open>null\<close> or \<open>undefined\<close>, and
  \<open>v > 0\<close>, which is \<open>None\<close> where the conversion of \<open>v\<close> to a primitive value throws a
  \<open>TypeError\<close>: an array is converted by joining its elements, an object by the inherited
  \<open>toString\<close> unless an own property hides it.\<close>

fun lengthOf :: "jsval \<Rightarrow> jsval" where
  "lengthOf (JArr xs) = JNum (showNat (length xs))"
| "lengthOf (JStr s) = JNum (showNat (length s))"
| "lengthOf (JObj kvs) = get (JObj kvs) ''length''"
| "lengthOf _ = JUndefined"

fun indexZero :: "jsval \<Rightarrow> jsval" where
  "indexZero (JArr xs) = (case xs of [] \<Rightarrow> JUndefined | x # _ \<Rightarrow> x)"
| "indexZero (JStr s) = (case s of [] \<Rightarrow> JUndefined | c # _ \<Rightarrow> JStr [c])"
| "indexZero (JObj kvs) = get (JObj kvs) ''0''"
| "indexZero _ = JUndefined"

fun gt0 :: "host \<Rightarrow> jsval \<Rightarrow> bool option" where
  "gt0 h JUndefined = Some False"
| "gt0 h JNull = Some False"
| "gt0 h (JBool b) = Some b"
| "gt0 h (JNum n) = Some (n \<noteq> u16 ''0'' \<and> n \<noteq> u16 ''NaN'' \<and> take 1 n \<noteq> u16 ''-'')"
| "gt0 h (JStr s) = Some (strGtZero h s)"
| "gt0 h (JArr xs) = map_option (strGtZero h) (toStr (JArr xs))"
| "gt0 h (JObj kvs) = (if map_of kvs (u16 ''toString'') = None then Some False else None)"

section \<open>Texts of the program\<close>

text \<open>The resume instruction 'please continue' (3 code units)\<close>

definition txtContinue :: jsstring where
  "txtContinue =
     [0x8BF7, 0x7EE7, 0x7EED]"

text \<open>The resume instruction 'carry out your suggestion' (7 code units)\<close>

definition txtApplySuggestion :: jsstring where
  "txtApplySuggestion =
     [0x6309, 0x4F60, 0x7684, 0x5EFA, 0x8BAE, 0x6267, 0x884C]"

text \<open>The text 'no session_id found, cannot continue' (21 code units)\<close>

definition txtNoSessionId :: jsstring where
  "txtNoSessionId =
     [0x672A, 0x627E, 0x5230, 0x20, 0x73, 0x65, 0x73, 0x73, 0x69, 0x6F, 0x6E, 0x5F, 0x69,
      0x64, 0xFF0C, 0x65E0, 0x6CD5, 0x7EE7, 0x7EED, 0x6267, 0x884C]"

text \<open>The text 'runtime error: exit code ' (11 code units)\<close>

definition txtRuntimeErrorExit :: jsstring where
  "txtRuntimeErrorExit =
     [0x8FD0, 0x884C, 0x65F6, 0x9519, 0x8BEF, 0x3A, 0x20, 0x9000, 0x51FA, 0x7801, 0x20]"

text \<open>The text 'no error output' (5 code units)\<close>

definition txtNoErrorOutput :: jsstring where
  "txtNoErrorOutput =
     [0x65E0, 0x9519, 0x8BEF, 0x8F93, 0x51FA]"

text \<open>Two line feeds, 'standard output:', line feed (8 code units)\<close>

definition txtStdoutHeader :: jsstring where
  "txtStdoutHeader =
     [0xA, 0xA, 0x6807, 0x51C6, 0x8F93, 0x51FA, 0x3A, 0xA]"

text \<open>Conclusion 'runtime error' (5 code units)\<close>

definition txtRuntimeError :: jsstring where
  "txtRuntimeError =
     [0x8FD0, 0x884C, 0x65F6, 0x9519, 0x8BEF]"

text \<open>Conclusion 'execution failed' (4 code units)\<close>

definition txtExecutionError :: jsstring where
  "txtExecutionError =
     [0x6267, 0x884C, 0x51FA, 0x9519]"

text \<open>Conclusion 'completed' (3 code units)\<close>

definition txtCompleted :: jsstring where
  "txtCompleted =
     [0x5DF2, 0x5B8C, 0x6210]"

text \<open>Conclusion 'continuation suggested' (4 code units)\<close>

definition txtSuggestContinue :: jsstring where
  "txtSuggestContinue =
     [0x5EFA, 0x8BAE, 0x7EE7, 0x7EED]"

text \<open>Conclusion 'continuation needed' (4 code units)\<close>

definition txtNeedContinue :: jsstring where
  "txtNeedContinue =
     [0x9700, 0x8981, 0x7EE7, 0x7EED]"

text \<open>The text 'verdict: ' (6 code units)\<close>

definition txtVerdict :: jsstring where
  "txtVerdict =
     [0x5224, 0x5B9A, 0x7ED3, 0x679C, 0x3A, 0x20]"

text \<open>The text 'no reason given' (5 code units)\<close>

definition txtNoReason :: jsstring where
  "txtNoReason =
     [0x65E0, 0x539F, 0x56E0, 0x8BF4, 0x660E]"

text \<open>The text 'execution timed out (more than ' (8 code units)\<close>

definition txtTimeoutHead :: jsstring where
  "txtTimeoutHead =
     [0x6267, 0x884C, 0x8D85, 0x65F6, 0x28, 0x8D85, 0x8FC7, 0x20]"

text \<open>The text ' minutes)' (4 code units)\<close>

definition txtTimeoutMinutes :: jsstring where
  "txtTimeoutMinutes =
     [0x20, 0x5206, 0x949F, 0x29]"

text \<open>The text 'call-llm does not exist: ' (14 code units)\<close>

definition txtLLMMissing :: jsstring where
  "txtLLMMissing =
     [0x63, 0x61, 0x6C, 0x6C, 0x2D, 0x6C, 0x6C, 0x6D, 0x20, 0x4E0D, 0x5B58, 0x5728, 0x3A,
      0x20]"

text \<open>The text 'call-llm timed out (more than ' (17 code units)\<close>

definition txtLLMTimeoutHead :: jsstring where
  "txtLLMTimeoutHead =
     [0x63, 0x61, 0x6C, 0x6C, 0x2D, 0x6C, 0x6C, 0x6D, 0x20, 0x6267, 0x884C, 0x8D85, 0x65F6,
      0x28, 0x8D85, 0x8FC7, 0x20]"

text \<open>The text ' seconds)' (3 code units)\<close>

definition txtTimeoutSeconds :: jsstring where
  "txtTimeoutSeconds =
     [0x20, 0x79D2, 0x29]"

text \<open>The text 'JSON parsing failed: ' (10 code units)\<close>

definition txtParseFailed :: jsstring where
  "txtParseFailed =
     [0x4A, 0x53, 0x4F, 0x4E, 0x89E3, 0x6790, 0x5931, 0x8D25, 0x3A, 0x20]"

text \<open>The text 'invalid result value: ' (8 code units)\<close>

definition txtInvalidResult :: jsstring where
  "txtInvalidResult =
     [0x65E0, 0x6548, 0x7684, 0x7ED3, 0x679C, 0x503C, 0x3A, 0x20]"

text \<open>The text 'semantic judgement call failed, continuing by default' (17 code units)\<close>

definition txtJudgeCallFailedDefault :: jsstring where
  "txtJudgeCallFailedDefault =
     [0x8BED, 0x4E49, 0x5224, 0x5B9A, 0x8C03, 0x7528, 0x5931, 0x8D25, 0xFF0C, 0x9ED8,
      0x8BA4, 0x9700, 0x8981, 0x7EE7, 0x7EED, 0x6267, 0x884C]"

text \<open>The text 'exit code: ' (5 code units)\<close>

definition txtExitCode :: jsstring where
  "txtExitCode =
     [0x9000, 0x51FA, 0x7801, 0x3A, 0x20]"

text \<open>The text 'error: ' (4 code units)\<close>

definition txtError :: jsstring where
  "txtError =
     [0x9519, 0x8BEF, 0x3A, 0x20]"

text \<open>The text 'judgement call failed: ' (8 code units)\<close>

definition txtJudgeCallFailed :: jsstring where
  "txtJudgeCallFailed =
     [0x5224, 0x5B9A, 0x8C03, 0x7528, 0x5931, 0x8D25, 0x3A, 0x20]"

text \<open>The fixed instruction sent to the judge (371 code units)\<close>

definition SEMANTIC_JUDGE_PROMPT :: jsstring where
  "SEMANTIC_JUDGE_PROMPT =
     [0xA, 0xA, 0x2D, 0x2D, 0x2D, 0x2D, 0x2D, 0x2D, 0x2D, 0x2D, 0x2D, 0x2D, 0x2D, 0x2D,
      0x2D, 0x2D, 0x2D, 0x2D, 0x2D, 0x2D, 0x2D, 0x2D, 0x2D, 0x2D, 0x2D, 0x2D, 0x2D, 0x2D,
      0x2D, 0x2D, 0x2D, 0x2D, 0x2D, 0x2D, 0x2D, 0x2D, 0x2D, 0x2D, 0x2D, 0x2D, 0x2D, 0x2D,
      0x2D, 0x2D, 0x2D, 0x2D, 0x2D, 0x2D, 0x2D, 0x2D, 0x2D, 0x2D, 0x2D, 0x2D, 0x2D, 0x2D,
      0xA, 0x8BF7, 0x5206, 0x6790, 0x8BC4, 0x4F30, 0x4EE5, 0x4E0A, 0x5185, 0x5BB9, 0x7684,
      0x542B, 0x4E49, 0x3002, 0x5982, 0x679C, 0x5185, 0x5BB9, 0x7684, 0x610F, 0x601D,
      0x662F, 0x5DF2, 0x7ECF, 0x5B8C, 0x6210, 0x6240, 0x6709, 0x4EFB, 0x52A1, 0x5DE5,
      0x4F5C, 0xFF0C, 0x90A3, 0x4E48, 0x8FD4, 0x56DE, 0x22, 0x64, 0x6F, 0x6E, 0x65, 0x22,
      0xFF1B, 0xA, 0x5982, 0x679C, 0x5185, 0x5BB9, 0x7684, 0x610F, 0x601D, 0x662F, 0x5DF2,
      0x7ECF, 0x5B8C, 0x6210, 0x4E86, 0x90E8, 0x5206, 0x5DE5, 0x4F5C, 0x4EFB, 0x52A1,
      0xFF0C, 0x8FD8, 0x6709, 0x5DE5, 0x4F5C, 0x4EFB, 0x52A1, 0x9700, 0x8981, 0x7EE7,
      0x7EED, 0xFF0C, 0x90A3, 0x4E48, 0x8FD4, 0x56DE, 0x22, 0x72, 0x65, 0x73, 0x75, 0x6D,
      0x65, 0x22, 0xFF1B, 0xA, 0x5982, 0x679C, 0x5185, 0x5BB9, 0x7684, 0x5305, 0x542B,
      0x5EFA, 0x8BAE, 0x90E8, 0x5206, 0xFF0C, 0x4F8B, 0x5982, 0x63D0, 0x51FA, 0x591A,
      0x4E2A, 0x540E, 0x7EED, 0x65B9, 0x6848, 0xFF0C, 0x6216, 0x8005, 0x5EFA, 0x8BAE,
      0x53EF, 0x9009, 0x62E9, 0x7EE7, 0x7EED, 0x6267, 0x884C, 0x4E00, 0x4E9B, 0x975E,
      0x5FC5, 0x8981, 0x7684, 0x4EFB, 0x52A1, 0xFF0C, 0x90A3, 0x4E48, 0x5C31, 0x8FD4,
      0x56DE, 0x22, 0x61, 0x75, 0x74, 0x6F, 0x22, 0x3002, 0xA, 0x8981, 0x4ED4, 0x7EC6,
      0x5206, 0x8FA8, 0x5EFA, 0x8BAE, 0x90E8, 0x5206, 0x7684, 0x5185, 0x5BB9, 0x3002,
      0x5982, 0x679C, 0x603B, 0x7ED3, 0x5DF2, 0x7ECF, 0x8BF4, 0x660E, 0x4EFB, 0x52A1,
      0x5DF2, 0x7ECF, 0x5B8C, 0x6210, 0x2C, 0x53EA, 0x662F, 0x5EFA, 0x8BAE, 0x4EFB, 0x52A1,
      0x5916, 0x7684, 0x5176, 0x4ED6, 0x5DE5, 0x4F5C, 0x3002, 0x4E5F, 0x5224, 0x5B9A,
      0x4E3A, 0x3A, 0x5DF2, 0x7ECF, 0x5B8C, 0x6210, 0x4EFB, 0x52A1, 0x3002, 0x8FD4, 0x56DE,
      0x22, 0x64, 0x6F, 0x6E, 0x65, 0x22, 0x3002, 0xA, 0x2D, 0x2D, 0x2D, 0x2D, 0x2D, 0x2D,
      0x2D, 0x2D, 0x2D, 0x2D, 0x2D, 0x2D, 0x2D, 0x2D, 0x2D, 0x2D, 0x2D, 0x2D, 0x2D, 0x2D,
      0x2D, 0x2D, 0x2D, 0x2D, 0x2D, 0x2D, 0x2D, 0x2D, 0x2D, 0x2D, 0x2D, 0x2D, 0x2D, 0x2D,
      0x2D, 0x2D, 0x2D, 0x2D, 0x2D, 0x2D, 0x2D, 0x2D, 0x2D, 0x2D, 0x2D, 0x2D, 0x2D, 0x2D,
      0x2D, 0x2D, 0x2D, 0x2D, 0x2D, 0x2D, 0xA, 0x8FD4, 0x56DE, 0x7684, 0x5185, 0x5BB9,
      0x4EE5, 0x4A, 0x53, 0x4F, 0x4E, 0x683C, 0x5F0F, 0x8FD4, 0x56DE, 0xFF0C, 0x4F8B,
      0x5982, 0x3A, 0x20, 0xA, 0x60, 0x60, 0x60, 0x6A, 0x73, 0x6F, 0x6E, 0xA, 0x7B, 0x22,
      0x72, 0x65, 0x73, 0x75, 0x6C, 0x74, 0x22, 0x3A, 0x22, 0x64, 0x6F, 0x6E, 0x65, 0x22,
      0x7D, 0x3002, 0xA, 0x60, 0x60, 0x60, 0xA]"

section \<open>Judge client\<close>

datatype proc_end = Close "int option" | ProcError jsstring | TimerExpired

datatype signal = SIGTERM

text \<open>What one \<open>call-llm\<close> process does: the path of the script when it does not exist,
  the data of its two output streams, and the first of \<open>close\<close>, \<open>error\<close> and the
  expiry of the timer.\<close>

record llm_run =
  scriptMissing :: "jsstring option"
  llmOut :: jsstring
  llmErr :: jsstring
  llmEnd :: proc_end
  llmElapsed :: nat

record llm_result =
  llmExitCode :: int
  llmStdout :: jsstring
  llmStderr :: jsstring
  llmDurationMs :: nat

definition runCallLLMOnce ::
  "(jsstring list \<Rightarrow> llm_run) \<Rightarrow> jsstring list \<Rightarrow> int \<Rightarrow> signal list \<times> (jsstring + llm_result)" where
  "runCallLLMOnce env args timeoutSeconds =
     (let run = env args in
      case scriptMissing run of
        Some scriptPath \<Rightarrow> ([], Inl (txtLLMMissing @ scriptPath))
      | None \<Rightarrow>
          (case llmEnd run of
             TimerExpired \<Rightarrow>
               ([SIGTERM], Inl (txtLLMTimeoutHead @ showInt timeoutSeconds @ txtTimeoutSeconds))
           | ProcError msg \<Rightarrow> ([], Inl msg)
           | Close code \<Rightarrow>
               ([], Inr \<lparr> llmExitCode = (case code of None \<Rightarrow> 0 | Some c \<Rightarrow> c),
                          llmStdout = trim (llmOut run),
                          llmStderr = trim (llmErr run),
                          llmDurationMs = llmElapsed run \<rparr>)))"

record semantics_result =
  result :: jsstring
  reasons :: jsval

definition parseFailure :: "jsstring \<Rightarrow> semantics_result" where
  "parseFailure message =
     \<lparr> result = u16 ''resume'', reasons = JArr [JStr (txtParseFailed @ message)] \<rparr>"

definition parseLLMResult :: "host \<Rightarrow> jsstring \<Rightarrow> semantics_result" where
  "parseLLMResult h stdoutText =
     (case hostParse h (trim stdoutText) of
        Inl message \<Rightarrow> parseFailure message
      | Inr json \<Rightarrow>
          (if json = JNull then parseFailure (typeErrorMessage h (ReadOfNull ''result''))
           else if json = JUndefined
             then parseFailure (typeErrorMessage h (ReadOfUndefined ''result''))
           else
             (case get json ''result'' of
                JStr r \<Rightarrow>
                  (if r = u16 ''done'' \<or> r = u16 ''resume'' \<or> r = u16 ''auto'' then
                     \<lparr> result = r,
                       reasons = (if truthy (get json ''reasons'') then get json ''reasons''
                                  else JArr [JStr r]) \<rparr>
                   else parseFailure (txtInvalidResult @ r))
              | other \<Rightarrow>
                  (case toStr other of
                     Some printed \<Rightarrow> parseFailure (txtInvalidResult @ printed)
                   | None \<Rightarrow> parseFailure (typeErrorMessage h NotPrimitive)))))"

text \<open>The log of the first three reasons after the verdict is parsed, as far as it can
  throw: \<open>reasons.length > 0\<close> converts the length, \<open>reasons.slice\<close> is a function on
  arrays and strings only, and each reason logged is converted to a string.\<close>

definition logReasons :: "host \<Rightarrow> jsval \<Rightarrow> type_error option" where
  "logReasons h rs =
     (if \<not> truthy rs then None
      else
        (case gt0 h (lengthOf rs) of
           None \<Rightarrow> Some NotPrimitive
         | Some False \<Rightarrow> None
         | Some True \<Rightarrow>
             (case rs of
                JArr xs \<Rightarrow>
                  (if \<forall>x \<in> set (take 3 xs). toStr x \<noteq> None then None else Some NotPrimitive)
              | JStr s \<Rightarrow> None
              | _ \<Rightarrow> Some (NotAFunction ''slice''))))"

text \<open>The arguments of the judge process.\<close>

definition judgeArgs :: "jsstring \<Rightarrow> jsstring \<Rightarrow> jsstring list" where
  "judgeArgs judgeModel executionSummary =
     [u16 ''-m'', judgeModel, u16 ''-f'', u16 ''json'',
      u16 ''-c'', take 5000 executionSummary, u16 ''-p'', SEMANTIC_JUDGE_PROMPT]"


definition interpretSemanticsViaLLM ::
  "host \<Rightarrow> (jsstring list \<Rightarrow> llm_run) \<Rightarrow> jsstring \<Rightarrow> jsstring \<Rightarrow> semantics_result" where
  "interpretSemanticsViaLLM h env judgeModel executionSummary =
     (let args = judgeArgs judgeModel executionSummary
      in case snd (runCallLLMOnce env args 60) of
           Inl message \<Rightarrow>
             \<lparr> result = u16 ''resume'', reasons = JArr [JStr (txtJudgeCallFailed @ message)] \<rparr>
         | Inr r \<Rightarrow>
             (if llmExitCode r \<noteq> 0 \<or> llmStderr r \<noteq> [] then
                \<lparr> result = u16 ''resume'',
                  reasons = JArr
                    [JStr txtJudgeCallFailedDefault,
                     JStr (txtExitCode @ showInt (llmExitCode r)),
                     JStr (if llmStderr r \<noteq> [] then txtError @ take 200 (llmStderr r)
                           else txtNoErrorOutput)] \<rparr>
              else
                (let parsed = parseLLMResult h (llmStdout r) in
                 case logReasons h (reasons parsed) of
                   Some e \<Rightarrow>
                     \<lparr> result = u16 ''resume'',
                       reasons = JArr [JStr (txtJudgeCallFailed @ typeErrorMessage h e)] \<rparr>
                 | None \<Rightarrow> parsed)))"

section \<open>Agent invoker\<close>

text \<open>What one agent process does: the chunks of its two output streams and the first
  of \<open>close\<close>, \<open>error\<close> and the expiry of the timer.\<close>

record proc_run =
  stdoutChunks :: "jsstring list"
  stderrChunks :: "jsstring list"
  procEnd :: proc_end
  elapsedMs :: nat

record spawn_call =
  command :: jsstring
  spawnArgs :: "jsstring list"
  stdinWritten :: "jsstring option"

record agent_result =
  exitCode :: int
  stdout :: jsstring
  stderr :: jsstring
  durationMs :: nat
  sessionId :: "jsstring option"

record invocation =
  spawned :: spawn_call
  signals :: "signal list"
  outcome :: "jsstring + agent_result"

text \<open>Outside the streaming mode the session id is read from the lines of each chunk.\<close>

definition sniffLine :: "json_parser \<Rightarrow> jsstring option \<Rightarrow> jsstring \<Rightarrow> jsstring option" where
  "sniffLine JSON_parse sid line =
     (if trim line \<noteq> [] \<and> (prefix [0x7B] (trim line) \<or> sublist (u16 ''session_id'') line) then
        (case JSON_parse (trim line) of
           Inl _ \<Rightarrow> sid
         | Inr obj \<Rightarrow> (case extractSessionId obj of Some s \<Rightarrow> Some s | None \<Rightarrow> sid))
      else sid)"

definition sniffChunk :: "json_parser \<Rightarrow> jsstring option \<Rightarrow> jsstring \<Rightarrow> jsstring option" where
  "sniffChunk JSON_parse sid chunk = foldl (sniffLine JSON_parse) sid (splitLines chunk)"

text \<open>The variables \<open>stdout\<close> and \<open>extractedSessionId\<close> once the output stream has
  ended: in streaming mode they hold the last argument of \<open>onText\<close> and of \<open>onSessionId\<close>.\<close>

definition collectStdout :: "host \<Rightarrow> jsstring option \<Rightarrow> jsstring list \<Rightarrow> jsstring \<times> jsstring option" where
  "collectStdout h sid0 chunks =
     (if streamPartial h then
        (let r = pipeThroughAssistantFilter (hostParse h) chunks
         in (foldl (\<lambda>collected extractedText. extractedText) [] (onTextCalls r),
             foldl (\<lambda>sid sessionIdFromStream. Some sessionIdFromStream) sid0 (onSessionIdCalls r)))
      else (concat chunks, foldl (sniffChunk (hostParse h)) sid0 chunks))"

definition settleAgent ::
  "host \<Rightarrow> jsstring option \<Rightarrow> int \<Rightarrow> spawn_call \<Rightarrow> proc_run \<Rightarrow> invocation" where
  "settleAgent h sid0 timeoutMinutes call run =
     (case procEnd run of
        TimerExpired \<Rightarrow>
          \<lparr> spawned = call, signals = [SIGTERM],
            outcome = Inl (txtTimeoutHead @ showInt timeoutMinutes @ txtTimeoutMinutes) \<rparr>
      | ProcError msg \<Rightarrow> \<lparr> spawned = call, signals = [], outcome = Inl msg \<rparr>
      | Close code \<Rightarrow>
          (let (out, sid) = collectStdout h sid0 (stdoutChunks run) in
           \<lparr> spawned = call, signals = [],
             outcome = Inr \<lparr> exitCode = (case code of None \<Rightarrow> 0 | Some c \<Rightarrow> c),
                             stdout = trim out,
                             stderr = trim (concat (stderrChunks run)),
                             durationMs = elapsedMs run,
                             sessionId = sid \<rparr> \<rparr>))"

definition hasOutputFormat :: "jsstring list \<Rightarrow> bool" where
  "hasOutputFormat positionalArgs \<longleftrightarrow>
     (\<exists>idx \<in> set [0 ..< length positionalArgs].
        positionalArgs ! idx = u16 ''--output-format''
        \<or> prefix (u16 ''--output-format='') (positionalArgs ! idx)
        \<or> (0 < idx \<and> positionalArgs ! (idx - 1) = u16 ''--output-format''))"

definition initialSpawn :: "host \<Rightarrow> jsstring \<Rightarrow> jsstring \<Rightarrow> jsstring list \<Rightarrow> spawn_call" where
  "initialSpawn h prompt model positionalArgs =
     (let hasNewlines = (0x0A \<in> set prompt \<or> 0x0D \<in> set prompt);
          isTooLong = (50000 < length prompt);
          needsStdinMode = (hasNewlines \<or> isTooLong);
          base = [u16 ''-p'', u16 ''--model'', model, u16 ''--force'', u16 ''--print'']
                 @ (if streamPartial h then [u16 ''--stream-partial-output''] else [])
                 @ (if needsStdinMode then [] else [prompt]);
          withFormat = (if hasOutputFormat positionalArgs then base
                        else base @ [u16 ''--output-format'', u16 ''stream-json''])
      in \<lparr> command = u16 ''cursor-agent'',
           spawnArgs = withFormat @ positionalArgs,
           stdinWritten = (if needsStdinMode then Some (prompt @ [0x0A]) else None) \<rparr>)"

definition runCursorAgentInitial ::
  "host \<Rightarrow> (spawn_call \<Rightarrow> proc_run) \<Rightarrow> jsstring \<Rightarrow> jsstring \<Rightarrow> jsstring list \<Rightarrow> int \<Rightarrow> invocation" where
  "runCursorAgentInitial h env prompt model positionalArgs timeoutMinutes =
     (let call = initialSpawn h prompt model positionalArgs
      in settleAgent h None timeoutMinutes call (env call))"

definition resumeSpawn :: "jsstring \<Rightarrow> jsstring \<Rightarrow> jsstring \<Rightarrow> spawn_call" where
  "resumeSpawn model sid prompt =
     \<lparr> command = u16 ''cursor-agent'',
       spawnArgs = [u16 ''--model'', model, u16 ''--resume='' @ sid, u16 ''--print'',
                    u16 ''--output-format'', u16 ''stream-json'', u16 ''--force'', prompt],
       stdinWritten = None \<rparr>"

definition runCursorAgentResume ::
  "host \<Rightarrow> (spawn_call \<Rightarrow> proc_run) \<Rightarrow> jsstring \<Rightarrow> jsstring \<Rightarrow> jsstring \<Rightarrow> int \<Rightarrow> invocation" where
  "runCursorAgentResume h env model sid prompt timeoutMinutes =
     (let call = resumeSpawn model sid prompt
      in settleAgent h (Some sid) timeoutMinutes call (env call))"

section \<open>Retry and resume controller\<close>

text \<open>One entry of \<open>executions\<close>. \<open>exSessionId\<close> is \<open>JUndefined\<close> where the entry has no
  \<open>sessionId\<close> property.\<close>

record execution =
  index :: int
  exDurationMs :: nat
  conclusion :: jsstring
  exSessionId :: jsval
  exNotes :: "jsval list"

text \<open>The world around one run of the controller: the host, and what the agent process
  and the judge process of each attempt do.\<close>

record world =
  hostOf :: host
  agent :: "int \<Rightarrow> spawn_call \<Rightarrow> proc_run"
  callLLM :: "int \<Rightarrow> jsstring list \<Rightarrow> llm_run"

text \<open>The arguments of \<open>executeTaskWithRetry\<close>. The telemetry argument is left out: every
  push is wrapped so that its failure changes nothing.\<close>

record task_args =
  prompt :: jsstring
  model :: jsstring
  judgeModel :: jsstring
  retry :: int
  timeoutMinutes :: int
  positionalArgs :: "jsstring list"

text \<open>The local variables of the loop, and two logs that the program does not keep: the
  invocations made, and the calls of the judge with the attempt, the transcript handed
  over and the verdict returned.\<close>

record judge_call =
  jcAttempt :: int
  jcSummary :: jsstring
  jcVerdict :: semantics_result

record loop_vars =
  vExecutions :: "execution list"
  vNeedsContinue :: bool
  vFinalStatus :: jsstring
  vErrorMessage :: "jsstring option"
  vLastSemanticsResult :: "semantics_result option"
  vSessionId :: "jsstring option"
  invocations :: "invocation list"
  judgeCalls :: "judge_call list"

definition initialVars :: loop_vars where
  "initialVars =
     \<lparr> vExecutions = [], vNeedsContinue = True, vFinalStatus = u16 ''done'',
       vErrorMessage = None, vLastSemanticsResult = None, vSessionId = None,
       invocations = [], judgeCalls = [] \<rparr>"

definition truthyId :: "jsstring option \<Rightarrow> bool" where
  "truthyId sid \<longleftrightarrow> (case sid of None \<Rightarrow> False | Some s \<Rightarrow> s \<noteq> [])"

text \<open>Iterating a string yields its code points: a surrogate pair stays together.\<close>

fun codePoints :: "jsstring \<Rightarrow> jsstring list" where
  "codePoints [] = []"
| "codePoints [c] = [[c]]"
| "codePoints (c # d # cs) =
     (if 0xD800 \<le> c \<and> c \<le> 0xDBFF \<and> 0xDC00 \<le> d \<and> d \<le> 0xDFFF
      then [c, d] # codePoints cs
      else [c] # codePoints (d # cs))"

text \<open>The text of the first reason for the log, or the \<open>TypeError\<close> raised on the way:
  by \<open>reasons.length > 0\<close>, or by \<open>reasons[0].substring\<close> where the first reason is not a
  string.\<close>

definition reasonText :: "host \<Rightarrow> jsval \<Rightarrow> type_error + jsstring" where
  "reasonText h rs =
     (if \<not> truthy rs then Inr txtNoReason
      else
        (case gt0 h (lengthOf rs) of
           None \<Rightarrow> Inl NotPrimitive
         | Some False \<Rightarrow> Inr txtNoReason
         | Some True \<Rightarrow>
             (case indexZero rs of
                JStr s \<Rightarrow> Inr (take 100 s @ (if 100 < length s then u16 ''...'' else []))
              | JUndefined \<Rightarrow> Inl (ReadOfUndefined ''substring'')
              | JNull \<Rightarrow> Inl (ReadOfNull ''substring'')
              | _ \<Rightarrow> Inl (NotAFunction ''substring''))))"

text \<open>The spread \<open>...reasons\<close>; \<open>None\<close> where the value is not iterable.\<close>

fun spreadReasons :: "jsval \<Rightarrow> jsval list option" where
  "spreadReasons (JArr xs) = Some xs"
| "spreadReasons (JStr s) = Some (map JStr (codePoints s))"
| "spreadReasons _ = None"

text \<open>The \<open>catch\<close> block of the loop body.\<close>

definition catchError :: "int \<Rightarrow> jsstring \<Rightarrow> loop_vars \<Rightarrow> loop_vars" where
  "catchError attempts message v =
     v\<lparr> vErrorMessage := Some message,
        vFinalStatus := u16 ''error'',
        vExecutions := vExecutions v @
          [\<lparr> index = attempts, exDurationMs = 0, conclusion = txtExecutionError,
             exSessionId = JUndefined,
             exNotes = [JStr (take 500 message @ (if 500 < length message then u16 ''...'' else []))] \<rparr>] \<rparr>"

text \<open>The body from the runtime-error check on. The boolean says that the loop is left
  by \<open>break\<close>.\<close>

definition checkAndJudge ::
  "world \<Rightarrow> task_args \<Rightarrow> int \<Rightarrow> agent_result \<Rightarrow> loop_vars \<Rightarrow> loop_vars \<times> bool" where
  "checkAndJudge w a attempts res v =
     (if exitCode res \<noteq> 0 \<or> stderr res \<noteq> [] then
        (let fullError = txtRuntimeErrorExit @ showInt (exitCode res) @ [0x0A]
                         @ (if stderr res \<noteq> [] then stderr res else txtNoErrorOutput)
                         @ txtStdoutHeader @ stdout res
         in (v\<lparr> vErrorMessage := Some (take 200 fullError),
                 vFinalStatus := u16 ''error'',
                 vExecutions := vExecutions v @
                   [\<lparr> index = attempts, exDurationMs = durationMs res,
                      conclusion = txtRuntimeError, exSessionId = JUndefined,
                      exNotes = [JStr (take 500 fullError
                                     @ (if 500 < length fullError then u16 ''...'' else []))] \<rparr>] \<rparr>,
             True))
      else
        (let executionSummary = take 5000 (stdout res);
             semanticsResult = interpretSemanticsViaLLM (hostOf w) (callLLM w attempts)
                                 (judgeModel a) executionSummary;
             v1 = v\<lparr> judgeCalls := judgeCalls v @
                    [\<lparr> jcAttempt = attempts, jcSummary = executionSummary,
                       jcVerdict = semanticsResult \<rparr>] \<rparr>
         in case reasonText (hostOf w) (reasons semanticsResult) of
              Inl e \<Rightarrow> (catchError attempts (typeErrorMessage (hostOf w) e) v1, True)
            | Inr _ \<Rightarrow>
                (let v2 = v1\<lparr> vLastSemanticsResult := Some semanticsResult \<rparr> in
                 case spreadReasons (reasons semanticsResult) of
                   None \<Rightarrow>
                     (catchError attempts (typeErrorMessage (hostOf w) NotIterable) v2, True)
                 | Some rs \<Rightarrow>
                     (let v3 = v2\<lparr> vExecutions := vExecutions v2 @
                                 [\<lparr> index = attempts, exDurationMs = durationMs res,
                                    conclusion =
                                      (if result semanticsResult = u16 ''done'' then txtCompleted
                                       else if result semanticsResult = u16 ''auto''
                                         then txtSuggestContinue
                                       else txtNeedContinue),
                                    exSessionId =
                                      (if truthyId (sessionId res) then JStr (the (sessionId res))
                                       else if truthyId (vSessionId v2)
                                         then JStr (the (vSessionId v2))
                                       else JNull),
                                    exNotes = [JStr (txtVerdict @ result semanticsResult)] @ rs
                                            @ [JStr (take 200 (stdout res) @ u16 ''...'')] \<rparr>] \<rparr>
                      in if result semanticsResult = u16 ''done''
                         then (v3\<lparr> vFinalStatus := u16 ''done'', vNeedsContinue := False \<rparr>, True)
                         else (v3\<lparr> vNeedsContinue := True \<rparr>, False)))))"

definition attemptBody :: "world \<Rightarrow> task_args \<Rightarrow> int \<Rightarrow> loop_vars \<Rightarrow> loop_vars \<times> bool" where
  "attemptBody w a attempts v =
     (if attempts = 1 then
        (let inv = runCursorAgentInitial (hostOf w) (agent w attempts) (prompt a) (model a)
                     (positionalArgs a) (timeoutMinutes a);
             v1 = v\<lparr> invocations := invocations v @ [inv] \<rparr>
         in case outcome inv of
              Inl message \<Rightarrow> (catchError attempts message v1, True)
            | Inr res \<Rightarrow>
                checkAndJudge w a attempts res
                  (if truthyId (sessionId res) then v1\<lparr> vSessionId := sessionId res \<rparr> else v1))
      else if \<not> truthyId (vSessionId v) then
        (v\<lparr> vErrorMessage := Some txtNoSessionId, vFinalStatus := u16 ''error'' \<rparr>, True)
      else
        (let resumePrompt =
               (case vLastSemanticsResult v of
                  Some s \<Rightarrow> (if result s = u16 ''auto'' then txtApplySuggestion else txtContinue)
                | None \<Rightarrow> txtContinue);
             inv = runCursorAgentResume (hostOf w) (agent w attempts) (model a)
                     (the (vSessionId v)) resumePrompt (timeoutMinutes a);
             v1 = v\<lparr> invocations := invocations v @ [inv] \<rparr>
         in case outcome inv of
              Inl message \<Rightarrow> (catchError attempts message v1, True)
            | Inr res \<Rightarrow>
                checkAndJudge w a attempts res
                  (if truthyId (sessionId res) \<and> sessionId res \<noteq> vSessionId v1
                   then v1\<lparr> vSessionId := sessionId res \<rparr> else v1)))"

function whileLoop :: "world \<Rightarrow> task_args \<Rightarrow> int \<Rightarrow> loop_vars \<Rightarrow> int \<times> loop_vars" where
  "whileLoop w a attempts v =
     (if vNeedsContinue v \<and> attempts < retry a then
        (case attemptBody w a (attempts + 1) v of
           (v', leave) \<Rightarrow>
             if leave then (attempts + 1, v') else whileLoop w a (attempts + 1) v')
      else (attempts, v))"
  by pat_completeness auto
termination
  by (relation "measure (\<lambda>(w, a, attempts, v). nat (retry a - attempts))") auto

record report =
  success :: bool
  attempts :: int
  finalStatus :: jsstring
  executions :: "execution list"
  errorMessage :: "jsstring option"

definition executeTaskWithRetry :: "world \<Rightarrow> task_args \<Rightarrow> report" where
  "executeTaskWithRetry w a =
     (case whileLoop w a 0 initialVars of
        (n, v) \<Rightarrow>
          (let final = (if vNeedsContinue v \<and> retry a \<le> n then u16 ''partial''
                        else vFinalStatus v)
           in \<lparr> success = (final = u16 ''done''), attempts = n, finalStatus = final,
                executions = vExecutions v, errorMessage = vErrorMessage v \<rparr>))"

text \<open>The invocations a run makes, its calls of the judge, and the session id it holds
  at the end.\<close>

definition invocationsOf :: "world \<Rightarrow> task_args \<Rightarrow> invocation list" where
  "invocationsOf w a = invocations (snd (whileLoop w a 0 initialVars))"

definition judgeCallsOf :: "world \<Rightarrow> task_args \<Rightarrow> judge_call list" where
  "judgeCallsOf w a = judgeCalls (snd (whileLoop w a 0 initialVars))"

definition sessionIdOf :: "world \<Rightarrow> task_args \<Rightarrow> jsstring option" where
  "sessionIdOf w a = vSessionId (snd (whileLoop w a 0 initialVars))"

text \<open>The states in which the loop condition is evaluated: the start, and each state
  left by an attempt that did not end in \<open>break\<close>.\<close>

inductive reaches :: "world \<Rightarrow> task_args \<Rightarrow> int \<Rightarrow> loop_vars \<Rightarrow> bool" for w a where
  start: "reaches w a 0 initialVars"
| step: "reaches w a n v \<Longrightarrow> vNeedsContinue v \<Longrightarrow> n < retry a \<Longrightarrow>
         attemptBody w a (n + 1) v = (v', False) \<Longrightarrow> reaches w a (n + 1) v'"

text \<open>An invocation that returns exit status 0 and an empty error stream.\<close>

definition cleanInvocation :: "invocation \<Rightarrow> bool" where
  "cleanInvocation call \<longleftrightarrow>
     (case outcome call of Inl _ \<Rightarrow> False | Inr res \<Rightarrow> exitCode res = 0 \<and> stderr res = [])"

text \<open>The session id an invocation returns, if it returns one that is not empty.\<close>

definition returnedSessionId :: "invocation \<Rightarrow> jsstring option" where
  "returnedSessionId call =
     (case outcome call of
        Inl _ \<Rightarrow> None
      | Inr res \<Rightarrow> (if truthyId (sessionId res) then sessionId res else None))"

text \<open>Reasons the controller can log and spread into the notes: an array whose first
  element, if any, is a string, or a string.\<close>

definition reasonsUsable :: "host \<Rightarrow> jsval \<Rightarrow> bool" where
  "reasonsUsable h rs \<longleftrightarrow>
     (case reasonText h rs of Inl _ \<Rightarrow> False | Inr _ \<Rightarrow> True) \<and> spreadReasons rs \<noteq> None"

definition continuing :: "host \<Rightarrow> semantics_result \<Rightarrow> bool" where
  "continuing h s \<longleftrightarrow>
     (result s = u16 ''resume'' \<or> result s = u16 ''auto'') \<and> reasonsUsable h (reasons s)"

text \<open>The instruction of a resume invocation after a verdict.\<close>

definition instructionAfter :: "semantics_result \<Rightarrow> jsstring" where
  "instructionAfter s = (if result s = u16 ''auto'' then txtApplySuggestion else txtContinue)"

text \<open>The verdict of the judge on the result of an attempt, the invocation an attempt
  makes from a state of the loop, the session id held after a returned invocation, and
  the last session id returned by a list of invocations.\<close>

definition judgeVerdict :: "world \<Rightarrow> task_args \<Rightarrow> int \<Rightarrow> agent_result \<Rightarrow> semantics_result" where
  "judgeVerdict w a k res =
     interpretSemanticsViaLLM (hostOf w) (callLLM w k) (judgeModel a) (take 5000 (stdout res))"

definition attemptInvocation :: "world \<Rightarrow> task_args \<Rightarrow> int \<Rightarrow> loop_vars \<Rightarrow> invocation" where
  "attemptInvocation w a k v =
     (if k = 1 then
        runCursorAgentInitial (hostOf w) (agent w k) (prompt a) (model a)
          (positionalArgs a) (timeoutMinutes a)
      else
        runCursorAgentResume (hostOf w) (agent w k) (model a) (the (vSessionId v))
          (case vLastSemanticsResult v of Some s \<Rightarrow> instructionAfter s | None \<Rightarrow> txtContinue)
          (timeoutMinutes a))"

definition sessionIdAfter :: "loop_vars \<Rightarrow> agent_result \<Rightarrow> jsstring option" where
  "sessionIdAfter v res = (if truthyId (sessionId res) then sessionId res else vSessionId v)"

definition latestSessionId :: "invocation list \<Rightarrow> jsstring option" where
  "latestSessionId calls =
     foldl (\<lambda>sid call. case returnedSessionId call of Some s \<Rightarrow> Some s | None \<Rightarrow> sid) None calls"

text \<open>Session ids recorded by the filter are not empty.\<close>

definition idsNonEmpty :: "filter_state \<Rightarrow> bool" where
  "idsNonEmpty st \<longleftrightarrow>
     (\<forall>s \<in> set (sessionIdCalls st). s \<noteq> []) \<and> (\<forall>s. streamSessionId st = Some s \<longrightarrow> s \<noteq> [])"

text \<open>The shape of the invocations after the first: each resumes the session returned by
  the invocation before it, with the instruction that follows the verdict before it.\<close>

definition resumeShape :: "task_args \<Rightarrow> invocation list \<Rightarrow> judge_call list \<Rightarrow> bool" where
  "resumeShape a calls verdicts \<longleftrightarrow>
     (\<forall>i. 1 \<le> i \<and> i < length calls \<longrightarrow>
        i - 1 < length verdicts
        \<and> returnedSessionId (calls ! (i - 1)) \<noteq> None
        \<and> spawned (calls ! i)
            = resumeSpawn (model a) (the (returnedSessionId (calls ! (i - 1))))
                (instructionAfter (jcVerdict (verdicts ! (i - 1)))))"

section \<open>Sequences of assistant texts\<close>

text \<open>A sequence of assistant texts fed through the per-event step: the fragments shown
  and the record left.\<close>

fun feedAssistant :: "jsstring \<Rightarrow> jsstring list \<Rightarrow> jsstring list \<times> jsstring" where
  "feedAssistant lastOutput [] = ([], lastOutput)"
| "feedAssistant lastOutput (t # ts) =
     (case assistantStep lastOutput t of
        (shown, lastOut) \<Rightarrow>
          (case feedAssistant lastOut ts of
             (rest, final) \<Rightarrow> (shown @ rest, final)))"

text \<open>Each text is a prefix of the next.\<close>

fun prefixChain :: "jsstring list \<Rightarrow> bool" where
  "prefixChain [] = True"
| "prefixChain [t] = True"
| "prefixChain (t # t' # ts) = (prefix t t' \<and> prefixChain (t' # ts))"

text \<open>The lines completed while the chunks arrive, and the events decoded from them.\<close>

fun completeLines :: "jsstring \<Rightarrow> jsstring list \<Rightarrow> jsstring list" where
  "completeLines buffer [] = []"
| "completeLines buffer (chunk # chunks) =
     butlast (splitLines (buffer @ chunk))
     @ completeLines (last (splitLines (buffer @ chunk))) chunks"

definition decodeLine :: "json_parser \<Rightarrow> jsstring \<Rightarrow> jsval option" where
  "decodeLine JSON_parse line =
     (case jsonOfLine line of
        None \<Rightarrow> None
      | Some jsonStr \<Rightarrow> (case JSON_parse jsonStr of Inl _ \<Rightarrow> None | Inr obj \<Rightarrow> Some obj))"

definition decodedEvents :: "json_parser \<Rightarrow> jsstring list \<Rightarrow> jsval list" where
  "decodedEvents JSON_parse chunks = List.map_filter (decodeLine JSON_parse) (completeLines [] chunks)"

text \<open>The assistant texts that a sequence of events hands to the diff: the text of each
  event after the prompts known so far, the one of the event itself included, have been
  stripped from its front.\<close>

fun assistantTexts :: "jsstring list \<Rightarrow> jsval list \<Rightarrow> jsstring list" where
  "assistantTexts known [] = []"
| "assistantTexts known (obj # rest) =
     (let known' = (case extractUserText obj of
                      Some userText \<Rightarrow>
                        (if hasText userText then setAdd known (trim userText) else known)
                    | None \<Rightarrow> known)
      in filterKnownPrompts known' (extractAssistantText obj) # assistantTexts known' rest)"

section \<open>Example inputs\<close>

text \<open>Events in the format of the agent, as the comments of \<open>extractUserText\<close> and
  \<open>extractAssistantText\<close> give it.\<close>

definition userEvent :: "jsstring \<Rightarrow> jsval" where
  "userEvent t =
     JObj [(u16 ''type'', JStr (u16 ''user'')),
           (u16 ''message'',
            JObj [(u16 ''role'', JStr (u16 ''user'')),
                  (u16 ''content'', JArr [JObj [(u16 ''type'', JStr (u16 ''text'')),
                                               (u16 ''text'', JStr t)]])])]"

definition assistantEvent :: "jsstring \<Rightarrow> jsval" where
  "assistantEvent t =
     JObj [(u16 ''type'', JStr (u16 ''assistant'')),
           (u16 ''message'',
            JObj [(u16 ''role'', JStr (u16 ''assistant'')),
                  (u16 ''content'', JArr [JObj [(u16 ''type'', JStr (u16 ''text'')),
                                               (u16 ''text'', JStr t)]])])]"

text \<open>A host whose \<open>JSON.parse\<close> knows the few documents of the examples.\<close>

definition exampleParse :: json_parser where
  \<open>exampleParse s =
     (if s = u16 ''{"type":"system"}'' then Inr (JObj [(u16 ''type'', JStr (u16 ''system''))])
      else if s = u16 ''{"session_id":"s1"}'' then Inr (JObj [(u16 ''session_id'', JStr (u16 ''s1''))])
      else if s = u16 ''{"result":"done"}'' then Inr (JObj [(u16 ''result'', JStr (u16 ''done''))])
      else if s = u16 ''{"result":"resume"}'' then Inr (JObj [(u16 ''result'', JStr (u16 ''resume''))])
      else if s = u16 ''{"result":"auto"}'' then Inr (JObj [(u16 ''result'', JStr (u16 ''auto''))])
      else if s = u16 ''{"result":"maybe"}'' then Inr (JObj [(u16 ''result'', JStr (u16 ''maybe''))])
      else if s = u16 ''null'' then Inr JNull
      else if s = u16 ''{"type":"assistant","text":"hi"}''
        then Inr (JObj [(u16 ''type'', JStr (u16 ''assistant'')), (u16 ''text'', JStr (u16 ''hi''))])
      else if s = u16 ''{"type":"assistant","text":"hi there"}''
        then Inr (JObj [(u16 ''type'', JStr (u16 ''assistant'')),
                        (u16 ''text'', JStr (u16 ''hi there''))])
      else Inl (u16 ''Unexpected token''))\<close>

definition exampleHost :: host where
  "exampleHost =
     \<lparr> hostParse = exampleParse, strGtZero = (\<lambda>s. False),
       typeErrorMessage = (\<lambda>e. u16 ''TypeError''), streamPartial = True \<rparr>"

text \<open>Arguments of a run with a given retry ceiling, four behaviours of the agent process,
  a judge process that prints a given document, one that prints a verdict and a line
  feed on its error stream, and the world in which every agent process and every judge
  process behaves as given.\<close>

definition exampleArgs :: "int \<Rightarrow> task_args" where
  "exampleArgs r =
     \<lparr> prompt = u16 ''fix the bug'', model = u16 ''m1'', judgeModel = u16 ''j1'',
       retry = r, timeoutMinutes = 30, positionalArgs = [] \<rparr>"

definition runWithSession :: proc_run where
  \<open>runWithSession =
     \<lparr> stdoutChunks = [u16 ''{"session_id":"s1"}'' @ [0x0A]], stderrChunks = [],
       procEnd = Close (Some 0), elapsedMs = 1000 \<rparr>\<close>

definition runWithoutSession :: proc_run where
  "runWithoutSession =
     \<lparr> stdoutChunks = [], stderrChunks = [], procEnd = Close (Some 0), elapsedMs = 1000 \<rparr>"

definition runFailing :: proc_run where
  "runFailing =
     \<lparr> stdoutChunks = [], stderrChunks = [], procEnd = Close (Some 1), elapsedMs = 1000 \<rparr>"

definition runTimingOut :: proc_run where
  "runTimingOut =
     \<lparr> stdoutChunks = [], stderrChunks = [], procEnd = TimerExpired, elapsedMs = 1800000 \<rparr>"

definition judgePrinting :: "jsstring \<Rightarrow> llm_run" where
  "judgePrinting doc =
     \<lparr> scriptMissing = None, llmOut = doc, llmErr = [], llmEnd = Close (Some 0),
       llmElapsed = 500 \<rparr>"


definition exampleWorld :: "proc_run \<Rightarrow> llm_run \<Rightarrow> world" where
  "exampleWorld run judge =
     \<lparr> hostOf = exampleHost, agent = (\<lambda>k call. run), callLLM = (\<lambda>k args. judge) \<rparr>"

text \<open>Task files: one whose only task has an id of 255 letters followed by a space, one
  with two tasks of the same name, and one with two well-formed tasks, the first carrying
  an error message; and surroundings in which every file exists and every task is
  carried out.\<close>

definition exampleTask :: "jsstring \<Rightarrow> jsval \<Rightarrow> jsval" where
  "exampleTask taskName taskId =
     JObj [(u16 ''id'', taskId), (u16 ''name'', JStr taskName),
           (u16 ''prompt'', JStr (u16 ''do it'')), (u16 ''status'', JStr (u16 ''pending''))]"



definition exampleTasks :: "jsval list" where
  "exampleTasks =
     [JObj [(u16 ''id'', JNum (u16 ''1'')), (u16 ''name'', JStr (u16 ''t1'')),
            (u16 ''prompt'', JStr (u16 ''do it'')), (u16 ''status'', JStr (u16 ''error'')),
            (u16 ''error_message'', JStr (u16 ''boom''))],
      exampleTask (u16 ''t2'') (JNum (u16 ''2''))]"






section \<open>Properties of the stream extractor\<close>

lemma assistantStep_cases:
  "hasText t \<Longrightarrow> assistantStep r t =
     (if t = r then ([], r)
      else if prefix r t then ([drop (length r) t], t)
      else ([t], t))"
  by (auto simp: assistantStep_def diffAgainst_def Let_def prefix_def)

lemma assistantStep_extension:
  "hasText t \<Longrightarrow> prefix r t \<Longrightarrow>
   concat (fst (assistantStep r t)) = drop (length r) t \<and> snd (assistantStep r t) = t"
  by (auto simp: assistantStep_cases prefix_def)

lemma prefixChain_last: "prefixChain (t # ts) \<Longrightarrow> prefix t (last (t # ts))"
proof (induction ts arbitrary: t)
  case Nil
  then show ?case by simp
next
  case (Cons u us)
  then have "prefix t u" and "prefix u (last (u # us))" by simp_all
  then show ?case using prefix_order.trans by auto
qed

lemma feedAssistant_chain:
  "prefixChain (t # ts) \<Longrightarrow> \<forall>x \<in> set (t # ts). hasText x \<Longrightarrow> prefix r t \<Longrightarrow>
   concat (fst (feedAssistant r (t # ts))) = drop (length r) (last (t # ts))
   \<and> snd (feedAssistant r (t # ts)) = last (t # ts)"
proof (induction ts arbitrary: r t)
  case Nil
  then show ?case using assistantStep_extension[of t r] by (simp add: split_def)
next
  case (Cons u us)
  have st: "concat (fst (assistantStep r t)) = drop (length r) t" "snd (assistantStep r t) = t"
    using assistantStep_extension[of t r] Cons.prems by auto
  have ih: "concat (fst (feedAssistant t (u # us))) = drop (length t) (last (u # us))"
           "snd (feedAssistant t (u # us)) = last (u # us)"
    using Cons.IH[of u t] Cons.prems by simp_all
  have "prefix t (last (u # us))"
    using Cons.prems(1) prefixChain_last[of u us] prefix_order.trans by auto
  then obtain z where z: "last (u # us) = t @ z" by (auto simp: prefix_def)
  obtain y where y: "t = r @ y" using Cons.prems(3) by (auto simp: prefix_def)
  have unfold: "feedAssistant r (t # u # us) =
      (fst (assistantStep r t) @ fst (feedAssistant (snd (assistantStep r t)) (u # us)),
       snd (feedAssistant (snd (assistantStep r t)) (u # us)))"
    by (simp add: split_def)
  show ?case
    unfolding unfold using st ih z y by simp
qed

text \<open>
  C1, as amended. A text that is not empty and not the literal \<open>null\<close> is diffed against
  the record: nothing is shown for a repeat of the record, the suffix beyond the record
  for an extension of it, the whole text otherwise, and in the last two cases the text
  becomes the record. Hence a chain of such texts, each a prefix of the next, fed to a
  fresh filter shows fragments whose concatenation is the last text, and a repeat of the
  last text shows nothing.
\<close>

theorem assistant_delta_extraction:
  "(hasText t \<longrightarrow>
      assistantStep r t =
        (if t = r then ([], r)
         else if prefix r t then ([drop (length r) t], t)
         else ([t], t)))
   \<and> (ts \<noteq> [] \<and> prefixChain ts \<and> (\<forall>x \<in> set ts. hasText x) \<longrightarrow>
        concat (fst (feedAssistant [] ts)) = last ts
        \<and> snd (feedAssistant [] ts) = last ts
        \<and> fst (feedAssistant (last ts) [last ts]) = [])"
proof (intro conjI impI)
  assume "hasText t"
  then show "assistantStep r t =
        (if t = r then ([], r)
         else if prefix r t then ([drop (length r) t], t)
         else ([t], t))"
    by (rule assistantStep_cases)
next
  assume a: "ts \<noteq> [] \<and> prefixChain ts \<and> (\<forall>x \<in> set ts. hasText x)"
  then obtain u us where ts: "ts = u # us" by (cases ts) auto
  have "concat (fst (feedAssistant [] (u # us))) = drop (length ([]::jsstring)) (last (u # us))
        \<and> snd (feedAssistant [] (u # us)) = last (u # us)"
    using feedAssistant_chain[of u us "[]"] a ts by simp
  then show "concat (fst (feedAssistant [] ts)) = last ts"
    and "snd (feedAssistant [] ts) = last ts"
    using ts by simp_all
  have "hasText (last ts)" using a by simp
  then show "fst (feedAssistant (last ts) [last ts]) = []"
    by (simp add: assistantStep_cases)
qed

theorem assistant_delta_extraction_witness:
  "hasText (u16 ''abc'')
   \<and> assistantStep (u16 ''ab'') (u16 ''abc'') = ([u16 ''c''], u16 ''abc'')
   \<and> prefixChain [u16 ''a'', u16 ''ab'', u16 ''ab'', u16 ''abc'']
   \<and> concat (fst (feedAssistant [] [u16 ''a'', u16 ''ab'', u16 ''ab'', u16 ''abc''])) = u16 ''abc''
   \<and> fst (feedAssistant (u16 ''abc'') [u16 ''abc'']) = []"
  using assistant_delta_extraction[of "u16 ''abc''" "u16 ''ab''"
          "[u16 ''a'', u16 ''ab'', u16 ''ab'', u16 ''abc'']"]
  by (simp add: hasText_def u16_def)

text \<open>
  C1 as stated fails on the literal text \<open>null\<close>, which the filter skips: after
  \<open>nul\<close> the text \<open>null\<close> extends the record, yet nothing is shown and the record stays,
  so the fragments of the chain \<open>nul\<close>, \<open>null\<close> concatenate to \<open>nul\<close>.
\<close>

theorem assistant_delta_null_counterexample:
  "prefix (u16 ''nul'') (u16 ''null'')
   \<and> assistantStep (u16 ''nul'') (u16 ''null'') = ([], u16 ''nul'')
   \<and> prefixChain [u16 ''nul'', u16 ''null'']
   \<and> concat (fst (feedAssistant [] [u16 ''nul'', u16 ''null''])) = u16 ''nul''
   \<and> u16 ''nul'' \<noteq> last [u16 ''nul'', u16 ''null'']"
  by (simp add: assistantStep_def diffAgainst_def hasText_def u16_def Let_def)

lemma extractUserText_Some_user:
  "extractUserText obj = Some u \<Longrightarrow> get obj ''type'' = JStr (u16 ''user'')"
  by (simp add: extractUserText_def split: if_splits)

lemma extractAssistantText_user:
  "get obj ''type'' = JStr (u16 ''user'') \<Longrightarrow> extractAssistantText obj = []"
  by (simp add: extractAssistantText_def)

lemma assistant_text_not_user:
  "extractAssistantText obj \<noteq> [] \<Longrightarrow> extractUserText obj = None"
  using extractUserText_Some_user extractAssistantText_user by (cases "extractUserText obj") auto

lemma processObj_assistant:
  assumes "extractUserText obj = None"
  shows "shownAssistant (processObj st obj) =
           shownAssistant st @ fst (assistantStep (lastAssistantOutput st)
              (filterKnownPrompts (knownUserPrompts st) (extractAssistantText obj)))"
    and "lastAssistantOutput (processObj st obj) =
           snd (assistantStep (lastAssistantOutput st)
              (filterKnownPrompts (knownUserPrompts st) (extractAssistantText obj)))"
  using assms
  by (simp_all add: processObj_def Let_def split_def split: option.splits)

lemma processObj_record_kept:
  "extractAssistantText obj = [] \<Longrightarrow>
   lastAssistantOutput (processObj st obj) = lastAssistantOutput st"
  by (simp add: processObj_def Let_def split_def filterKnownPrompts_def assistantStep_def
        hasText_def split: option.splits)

lemma processObj_rawBuffer: "rawBuffer (processObj st obj) = rawBuffer st"
  by (simp add: processObj_def Let_def split_def split: option.splits)

lemma trim_Nil: "trim [] = []"
  by (simp add: trim_def)

lemma stripKnownPrompts_no_match:
  "\<forall>q \<in> set ks. q \<noteq> [] \<longrightarrow> \<not> prefix (trim q) (trim t) \<Longrightarrow> stripKnownPrompts ks t = t"
  by (induction ks) auto

lemma stripKnownPrompts_echo:
  "\<exists>p \<in> set ks. p \<noteq> [] \<and> trim p = trim t \<Longrightarrow>
   \<forall>q \<in> set ks. q \<noteq> [] \<and> prefix (trim q) (trim t) \<longrightarrow> trim q = trim t \<Longrightarrow>
   stripKnownPrompts ks t = []"
proof (induction ks)
  case Nil
  then show ?case by simp
next
  case (Cons q ks)
  show ?case
  proof (cases "q \<noteq> [] \<and> prefix (trim q) (trim t)")
    case True
    with Cons.prems(2) have "trim q = trim t" by simp
    with True show ?thesis by (simp add: trim_Nil)
  next
    case False
    with Cons.prems(1) have "\<exists>p \<in> set ks. p \<noteq> [] \<and> trim p = trim t" by auto
    moreover from Cons.prems(2)
    have "\<forall>q \<in> set ks. q \<noteq> [] \<and> prefix (trim q) (trim t) \<longrightarrow> trim q = trim t" by simp
    ultimately have "stripKnownPrompts ks t = []" by (rule Cons.IH)
    with False show ?thesis by auto
  qed
qed

text \<open>
  C7, as amended. For an event with assistant text: when the text equals, up to
  surrounding white space, a recorded user prompt that is not empty, and no recorded
  prompt is a proper prefix of it, nothing of it is shown and the record stays; when its
  trimmed form starts with no recorded prompt, it is diffed against the record unchanged.
\<close>

theorem prompt_echo_filter:
  assumes "hasText (extractAssistantText obj)"
  shows "((\<exists>p \<in> set (knownUserPrompts st). p \<noteq> [] \<and> trim p = trim (extractAssistantText obj))
          \<and> (\<forall>q \<in> set (knownUserPrompts st).
                q \<noteq> [] \<and> prefix (trim q) (trim (extractAssistantText obj))
                \<longrightarrow> trim q = trim (extractAssistantText obj))
          \<longrightarrow> shownAssistant (processObj st obj) = shownAssistant st
              \<and> lastAssistantOutput (processObj st obj) = lastAssistantOutput st)
       \<and> ((\<forall>q \<in> set (knownUserPrompts st).
              q \<noteq> [] \<longrightarrow> \<not> prefix (trim q) (trim (extractAssistantText obj)))
          \<longrightarrow> shownAssistant (processObj st obj)
                = shownAssistant st
                  @ fst (diffAgainst (lastAssistantOutput st) (extractAssistantText obj))
              \<and> lastAssistantOutput (processObj st obj)
                = snd (diffAgainst (lastAssistantOutput st) (extractAssistantText obj)))"
proof -
  from assms have ne: "extractAssistantText obj \<noteq> []" by (auto simp: hasText_def)
  then have nu: "extractUserText obj = None" by (rule assistant_text_not_user)
  note po = processObj_assistant[OF nu, of st]
  show ?thesis
  proof (intro conjI impI)
    assume h: "(\<exists>p \<in> set (knownUserPrompts st). p \<noteq> [] \<and> trim p = trim (extractAssistantText obj))
          \<and> (\<forall>q \<in> set (knownUserPrompts st).
                q \<noteq> [] \<and> prefix (trim q) (trim (extractAssistantText obj))
                \<longrightarrow> trim q = trim (extractAssistantText obj))"
    then have "stripKnownPrompts (knownUserPrompts st) (extractAssistantText obj) = []"
      using stripKnownPrompts_echo by blast
    then have f: "filterKnownPrompts (knownUserPrompts st) (extractAssistantText obj) = []"
      using assms by (simp add: filterKnownPrompts_def)
    show "shownAssistant (processObj st obj) = shownAssistant st"
      using po(1) f by (simp add: assistantStep_def hasText_def)
    show "lastAssistantOutput (processObj st obj) = lastAssistantOutput st"
      using po(2) f by (simp add: assistantStep_def hasText_def)
  next
    assume h: "\<forall>q \<in> set (knownUserPrompts st).
              q \<noteq> [] \<longrightarrow> \<not> prefix (trim q) (trim (extractAssistantText obj))"
    then have "stripKnownPrompts (knownUserPrompts st) (extractAssistantText obj)
               = extractAssistantText obj"
      by (rule stripKnownPrompts_no_match)
    then have f: "filterKnownPrompts (knownUserPrompts st) (extractAssistantText obj)
                  = extractAssistantText obj"
      by (simp add: filterKnownPrompts_def)
    show "shownAssistant (processObj st obj)
                = shownAssistant st
                  @ fst (diffAgainst (lastAssistantOutput st) (extractAssistantText obj))"
      using po(1) f assms by (simp add: assistantStep_def)
    show "lastAssistantOutput (processObj st obj)
                = snd (diffAgainst (lastAssistantOutput st) (extractAssistantText obj))"
      using po(2) f assms by (simp add: assistantStep_def)
  qed
qed





lemma extractAssistantText_assistantEvent:
  "extractAssistantText (assistantEvent t) = t"
  by (simp add: extractAssistantText_def assistantEvent_def u16_def Let_def)

lemma extractUserText_assistantEvent:
  "extractUserText (assistantEvent t) = None"
  by (simp add: extractUserText_def assistantEvent_def u16_def Let_def)

lemma extractUserText_userEvent:
  "t \<noteq> [] \<Longrightarrow> extractUserText (userEvent t) = Some t"
  by (simp add: extractUserText_def userEvent_def u16_def Let_def)

lemma extractAssistantText_userEvent:
  "extractAssistantText (userEvent t) = []"
  by (simp add: extractAssistantText_def userEvent_def u16_def Let_def)

lemma extractSessionId_events:
  "extractSessionId (userEvent t) = None" "extractSessionId (assistantEvent t) = None"
  by (simp_all add: userEvent_def assistantEvent_def u16_def)

lemma processObj_userEvent_initial:
  "hasText t \<Longrightarrow> processObj initialFilterState (userEvent t)
     = initialFilterState\<lparr> knownUserPrompts := [trim t], shownUser := [t], lastUserOutput := t \<rparr>"
  by (simp add: processObj_def extractSessionId_events extractUserText_userEvent
        extractAssistantText_userEvent hasText_def filterKnownPrompts_def assistantStep_def
        diffAgainst_def initialFilterState_def setAdd_def Let_def del: extractSessionId.simps)

theorem prompt_echo_filter_witness:
  "hasText (extractAssistantText (assistantEvent (u16 ''fix it'')))
   \<and> shownAssistant (processObj (processObj initialFilterState (userEvent (u16 ''fix it'')))
                                 (assistantEvent (u16 ''fix it''))) = []
   \<and> shownAssistant (processObj (processObj initialFilterState (userEvent (u16 ''fix it'')))
                                 (assistantEvent (u16 ''done''))) = [u16 ''done'']"
proof -
  have ht: "hasText (u16 ''fix it'')" "hasText (u16 ''done'')"
    by (simp_all add: hasText_def u16_def)
  have tr: "trim (u16 ''fix it'') = u16 ''fix it''" "trim (u16 ''done'') = u16 ''done''"
    by (simp_all add: trim_def u16_def isWhiteSpace_def)
  have np: "\<not> prefix (u16 ''fix it'') (u16 ''done'')" "u16 ''done'' \<noteq> []"
    "u16 ''fix it'' \<noteq> []"
    by (simp_all add: u16_def)
  have s: "processObj initialFilterState (userEvent (u16 ''fix it''))
        = initialFilterState\<lparr> knownUserPrompts := [u16 ''fix it''],
             shownUser := [u16 ''fix it''], lastUserOutput := u16 ''fix it'' \<rparr>"
    using processObj_userEvent_initial[OF ht(1)] by (simp add: tr)
  show ?thesis
    using prompt_echo_filter[of "assistantEvent (u16 ''fix it'')"
            "processObj initialFilterState (userEvent (u16 ''fix it''))"]
          prompt_echo_filter[of "assistantEvent (u16 ''done'')"
            "processObj initialFilterState (userEvent (u16 ''fix it''))"]
    unfolding s
    by (simp add: ht tr np extractAssistantText_assistantEvent
          initialFilterState_def diffAgainst_def Let_def)
qed

lemma processObj_userEvent:
  "hasText t \<Longrightarrow> processObj st (userEvent t)
     = st\<lparr> knownUserPrompts := setAdd (knownUserPrompts st) (trim t),
            shownUser := shownUser st @ fst (diffAgainst (lastUserOutput st) t),
            lastUserOutput := snd (diffAgainst (lastUserOutput st) t) \<rparr>"
  by (simp add: processObj_def extractSessionId_events extractUserText_userEvent
        extractAssistantText_userEvent hasText_def filterKnownPrompts_def assistantStep_def
        split_def Let_def del: extractSessionId.simps)

lemma processObj_assistantEvent:
  "processObj st (assistantEvent t)
     = st\<lparr> shownAssistant := shownAssistant st
              @ fst (assistantStep (lastAssistantOutput st) (filterKnownPrompts (knownUserPrompts st) t)),
            lastAssistantOutput :=
              snd (assistantStep (lastAssistantOutput st) (filterKnownPrompts (knownUserPrompts st) t)) \<rparr>"
  by (simp add: processObj_def extractSessionId_events extractUserText_assistantEvent
        extractAssistantText_assistantEvent split_def Let_def del: extractSessionId.simps)

text \<open>
  C7 as stated fails both ways: an answer that starts with the prompt \<open>fix\<close> without
  being an echo of it loses that prefix, and an echo of the prompt \<open>ab\<close> is shown as
  \<open>b\<close> when the shorter prompt \<open>a\<close> was recorded before.
\<close>

theorem prompt_echo_filter_counterexample:
  "extractAssistantText (assistantEvent (u16 ''fix applied'')) \<noteq> u16 ''fix''
   \<and> shownAssistant (foldl processObj initialFilterState
        [userEvent (u16 ''fix''), assistantEvent (u16 ''fix applied'')]) = [u16 ''applied'']
   \<and> extractAssistantText (assistantEvent (u16 ''ab'')) = u16 ''ab''
   \<and> knownUserPrompts (foldl processObj initialFilterState
        [userEvent (u16 ''a''), userEvent (u16 ''ab'')]) = [u16 ''a'', u16 ''ab'']
   \<and> shownAssistant (foldl processObj initialFilterState
        [userEvent (u16 ''a''), userEvent (u16 ''ab''), assistantEvent (u16 ''ab'')]) = [u16 ''b'']"
proof -
  have ht: "hasText (u16 ''fix'')" "hasText (u16 ''a'')" "hasText (u16 ''ab'')"
    by (simp_all add: hasText_def u16_def)
  show ?thesis
    by (simp add: processObj_userEvent[OF ht(1)] processObj_userEvent[OF ht(2)]
          processObj_userEvent[OF ht(3)] processObj_assistantEvent
          extractAssistantText_assistantEvent)
       (simp add: initialFilterState_def setAdd_def filterKnownPrompts_def assistantStep_def
          diffAgainst_def hasText_def trim_def isWhiteSpace_def u16_def Let_def)
qed

lemma flushLine_record: "lastAssistantOutput (flushLine P st line) = lastAssistantOutput st"
  by (simp add: flushLine_def Let_def split: option.splits sum.splits)

lemma foldl_flushLine_record:
  "lastAssistantOutput (foldl (flushLine P) st ls) = lastAssistantOutput st"
  by (induction ls arbitrary: st) (simp_all add: flushLine_record)

lemma onEnd_onTextCalls:
  "onTextCalls (onEnd P st) = (if lastAssistantOutput st = [] then [] else [lastAssistantOutput st])"
  by (simp add: onEnd_def Let_def foldl_flushLine_record)


text \<open>The record left by an event, by a sequence of events, and by a stream.\<close>

lemma diffAgainst_record: "snd (diffAgainst lastOutput newText) = newText"
  by (auto simp: diffAgainst_def Let_def prefix_def)

lemma assistantStep_record:
  "snd (assistantStep lastOutput t) = (if hasText t then t else lastOutput)"
  by (simp add: assistantStep_def diffAgainst_record)

lemma processObj_known:
  "knownUserPrompts (processObj st obj)
     = (case extractUserText obj of
          Some userText \<Rightarrow>
            (if hasText userText then setAdd (knownUserPrompts st) (trim userText)
             else knownUserPrompts st)
        | None \<Rightarrow> knownUserPrompts st)"
  by (simp add: processObj_def Let_def split_def split: option.splits)

lemma processObj_record:
  "lastAssistantOutput (processObj st obj)
     = (if hasText (filterKnownPrompts (knownUserPrompts (processObj st obj))
                      (extractAssistantText obj))
        then filterKnownPrompts (knownUserPrompts (processObj st obj)) (extractAssistantText obj)
        else lastAssistantOutput st)"
  unfolding processObj_known
  by (simp add: processObj_def Let_def split_def assistantStep_record split: option.splits)

lemma foldl_processObj_record:
  "lastAssistantOutput (foldl processObj st events)
     = last (lastAssistantOutput st
             # filter hasText (assistantTexts (knownUserPrompts st) events))"
proof (induction events arbitrary: st)
  case Nil
  show ?case by simp
next
  case (Cons obj rest)
  have k: "knownUserPrompts (processObj st obj)
     = (case extractUserText obj of
          Some userText \<Rightarrow>
            (if hasText userText then setAdd (knownUserPrompts st) (trim userText)
             else knownUserPrompts st)
        | None \<Rightarrow> knownUserPrompts st)"
    by (rule processObj_known)
  have a: "assistantTexts (knownUserPrompts st) (obj # rest)
      = filterKnownPrompts (knownUserPrompts (processObj st obj)) (extractAssistantText obj)
        # assistantTexts (knownUserPrompts (processObj st obj)) rest"
    by (simp add: k Let_def)
  have "lastAssistantOutput (foldl processObj st (obj # rest))
      = last (lastAssistantOutput (processObj st obj)
              # filter hasText (assistantTexts (knownUserPrompts (processObj st obj)) rest))"
    using Cons.IH[of "processObj st obj"] by simp
  also have "\<dots> = last (lastAssistantOutput st
             # filter hasText (assistantTexts (knownUserPrompts st) (obj # rest)))"
    unfolding a by (subst processObj_record) simp
  finally show ?case .
qed

lemma processLine_decode:
  "processLine P st line = (case decodeLine P line of None \<Rightarrow> st | Some obj \<Rightarrow> processObj st obj)"
  by (simp add: processLine_def decodeLine_def split: option.splits sum.splits)

lemma map_filter_Cons:
  "List.map_filter f (x # xs) = (case f x of None \<Rightarrow> List.map_filter f xs
                                 | Some y \<Rightarrow> y # List.map_filter f xs)"
  by (simp add: map_filter_def split: option.splits)

lemma map_filter_app:
  "List.map_filter f (xs @ ys) = List.map_filter f xs @ List.map_filter f ys"
  by (simp add: map_filter_def)

lemma foldl_processLine_events:
  "foldl (processLine P) st ls = foldl processObj st (List.map_filter (decodeLine P) ls)"
proof (induction ls arbitrary: st)
  case Nil
  show ?case by (simp add: map_filter_def)
next
  case (Cons l ls)
  have "foldl (processLine P) st (l # ls)
      = foldl processObj (processLine P st l) (List.map_filter (decodeLine P) ls)"
    by (simp add: Cons.IH)
  then show ?case
    using processLine_decode[of P st l]
    by (cases "decodeLine P l") (simp_all add: map_filter_Cons)
qed

lemma processObj_buffer:
  "processObj (st\<lparr> rawBuffer := b \<rparr>) obj = (processObj st obj)\<lparr> rawBuffer := b \<rparr>"
  by (simp add: processObj_def Let_def split_def split: option.splits)

lemma foldl_processObj_buffer:
  "foldl processObj (st\<lparr> rawBuffer := b \<rparr>) events = (foldl processObj st events)\<lparr> rawBuffer := b \<rparr>"
  by (induction events arbitrary: st) (simp_all add: processObj_buffer)

lemma onData_events:
  "onData P st chunk
     = (foldl processObj st
          (List.map_filter (decodeLine P) (butlast (splitLines (rawBuffer st @ chunk)))))
       \<lparr> rawBuffer := last (splitLines (rawBuffer st @ chunk)) \<rparr>"
  by (simp add: onData_def Let_def foldl_processLine_events foldl_processObj_buffer)

lemma foldl_onData_events:
  "\<exists>b. foldl (onData P) st chunks
         = (foldl processObj st
              (List.map_filter (decodeLine P) (completeLines (rawBuffer st) chunks)))
           \<lparr> rawBuffer := b \<rparr>"
proof (induction chunks arbitrary: st)
  case Nil
  have "foldl (onData P) st []
      = (foldl processObj st (List.map_filter (decodeLine P) (completeLines (rawBuffer st) [])))
        \<lparr> rawBuffer := rawBuffer st \<rparr>"
    by (simp add: map_filter_def)
  then show ?case by (rule exI)
next
  case (Cons c cs)
  let ?e1 = "List.map_filter (decodeLine P) (butlast (splitLines (rawBuffer st @ c)))"
  let ?b1 = "last (splitLines (rawBuffer st @ c))"
  let ?st1 = "(foldl processObj st ?e1)\<lparr> rawBuffer := ?b1 \<rparr>"
  have o: "onData P st c = ?st1" by (rule onData_events)
  have rb: "rawBuffer ?st1 = ?b1" by simp
  from Cons.IH[of ?st1] obtain b where
    "foldl (onData P) ?st1 cs
       = (foldl processObj ?st1
            (List.map_filter (decodeLine P) (completeLines (rawBuffer ?st1) cs)))
         \<lparr> rawBuffer := b \<rparr>"
    by blast
  then have "foldl (onData P) ?st1 cs
       = (foldl processObj (foldl processObj st ?e1)
            (List.map_filter (decodeLine P) (completeLines ?b1 cs)))
         \<lparr> rawBuffer := b \<rparr>"
    by (simp only: rb foldl_processObj_buffer) simp
  then have "foldl (onData P) st (c # cs)
       = (foldl processObj st
            (List.map_filter (decodeLine P) (completeLines (rawBuffer st) (c # cs))))
         \<lparr> rawBuffer := b \<rparr>"
    by (simp add: o map_filter_app)
  then show ?case by blast
qed

lemma stream_record:
  "lastAssistantOutput (foldl (onData P) initialFilterState chunks)
     = last ([] # filter hasText (assistantTexts [] (decodedEvents P chunks)))"
proof -
  have i: "rawBuffer initialFilterState = []" "knownUserPrompts initialFilterState = []"
    "lastAssistantOutput initialFilterState = []"
    by (simp_all add: initialFilterState_def)
  from foldl_onData_events[of P initialFilterState chunks] obtain b where
    "foldl (onData P) initialFilterState chunks
       = (foldl processObj initialFilterState (decodedEvents P chunks))\<lparr> rawBuffer := b \<rparr>"
    by (auto simp: i decodedEvents_def)
  then have "lastAssistantOutput (foldl (onData P) initialFilterState chunks)
       = lastAssistantOutput (foldl processObj initialFilterState (decodedEvents P chunks))"
    by simp
  then show ?thesis by (simp add: foldl_processObj_record i)
qed

lemma last_hasText: "ts = filter hasText xs \<Longrightarrow> ts \<noteq> [] \<Longrightarrow> last ts \<noteq> []"
proof -
  assume t: "ts = filter hasText xs" and n: "ts \<noteq> []"
  from n have "last ts \<in> set ts" by simp
  with t have "hasText (last ts)" by simp
  then show ?thesis by (simp add: hasText_def)
qed

lemma stream_onText:
  "onTextCalls (pipeThroughAssistantFilter P chunks)
     = (case filter hasText (assistantTexts [] (decodedEvents P chunks)) of
          [] \<Rightarrow> []
        | t # ts \<Rightarrow> [last (t # ts)])"
proof (cases "filter hasText (assistantTexts [] (decodedEvents P chunks))")
  case Nil
  then show ?thesis
    by (simp add: pipeThroughAssistantFilter_def onEnd_onTextCalls stream_record)
next
  case (Cons t ts)
  from last_hasText[OF Cons[symmetric]] have "last (t # ts) \<noteq> []" by simp
  with Cons show ?thesis
    by (simp add: pipeThroughAssistantFilter_def onEnd_onTextCalls stream_record)
qed

lemma no_text_no_texts:
  "\<forall>obj \<in> set events. extractAssistantText obj = [] \<Longrightarrow>
   filter hasText (assistantTexts known events) = []"
  by (induction events arbitrary: known)
     (simp_all add: Let_def filterKnownPrompts_def hasText_def)

text \<open>
  C10. At the end of the stream the text callback is called at most once. Its argument is
  the assistant text recorded last: among the texts that the events on the completed
  lines of the stream hand to the diff, the last one that is not empty and not the
  literal \<open>null\<close>. It is that cumulative text as a whole, not the concatenation of the
  fragments shown. In streaming mode it is the transcript the caller collects. When no
  event carries assistant text, the callback is not called and the transcript is the
  empty string.
\<close>

theorem text_callback_at_end:
  "onTextCalls (pipeThroughAssistantFilter (hostParse h) chunks)
     = (case filter hasText (assistantTexts [] (decodedEvents (hostParse h) chunks)) of
          [] \<Rightarrow> []
        | t # ts \<Rightarrow> [last (t # ts)])
   \<and> (streamPartial h \<longrightarrow>
        fst (collectStdout h sid0 chunks)
          = (case filter hasText (assistantTexts [] (decodedEvents (hostParse h) chunks)) of
               [] \<Rightarrow> []
             | t # ts \<Rightarrow> last (t # ts)))
   \<and> ((\<forall>obj \<in> set (decodedEvents (hostParse h) chunks'). extractAssistantText obj = []) \<longrightarrow>
        onTextCalls (pipeThroughAssistantFilter (hostParse h) chunks') = []
        \<and> (streamPartial h \<longrightarrow> fst (collectStdout h sid0 chunks') = []))"
proof (intro conjI impI)
  show c: "onTextCalls (pipeThroughAssistantFilter (hostParse h) chunks)
     = (case filter hasText (assistantTexts [] (decodedEvents (hostParse h) chunks)) of
          [] \<Rightarrow> []
        | t # ts \<Rightarrow> [last (t # ts)])"
    by (rule stream_onText)
  {
    assume "streamPartial h"
    then show "fst (collectStdout h sid0 chunks)
          = (case filter hasText (assistantTexts [] (decodedEvents (hostParse h) chunks)) of
               [] \<Rightarrow> []
             | t # ts \<Rightarrow> last (t # ts))"
      by (cases "filter hasText (assistantTexts [] (decodedEvents (hostParse h) chunks))")
         (simp_all add: collectStdout_def Let_def stream_onText)
  }
  assume a: "\<forall>obj \<in> set (decodedEvents (hostParse h) chunks'). extractAssistantText obj = []"
  from no_text_no_texts[OF a, of "[]"]
  show e: "onTextCalls (pipeThroughAssistantFilter (hostParse h) chunks') = []"
    by (simp add: stream_onText)
  assume "streamPartial h"
  with e show "fst (collectStdout h sid0 chunks') = []"
    by (simp add: collectStdout_def Let_def)
qed


lemma example_decoded:
  \<open>decodedEvents exampleParse
      [u16 ''{"type":'', u16 ''"system"}'' @ [0x0A], u16 ''plain text'' @ [0x0D, 0x0A]]
    = [JObj [(u16 ''type'', JStr (u16 ''system''))]]\<close>
  by (simp add: decodedEvents_def map_filter_def decodeLine_def jsonOfLine_def exampleParse_def
        trim_def isWhiteSpace_def isOpening_def u16_def)

lemma example_decoded_texts:
  \<open>decodedEvents exampleParse
      [u16 ''{"type":"assistant","text":"hi"}'' @ [0x0A] @ u16 ''{"type":"assistant",'',
       u16 ''"text":"hi there"}'' @ [0x0A]]
    = [JObj [(u16 ''type'', JStr (u16 ''assistant'')), (u16 ''text'', JStr (u16 ''hi''))],
       JObj [(u16 ''type'', JStr (u16 ''assistant'')), (u16 ''text'', JStr (u16 ''hi there''))]]\<close>
  by (simp add: decodedEvents_def map_filter_def decodeLine_def jsonOfLine_def exampleParse_def
        trim_def isWhiteSpace_def isOpening_def u16_def)

lemma example_texts:
  \<open>filter hasText (assistantTexts []
      [JObj [(u16 ''type'', JStr (u16 ''assistant'')), (u16 ''text'', JStr (u16 ''hi''))],
       JObj [(u16 ''type'', JStr (u16 ''assistant'')), (u16 ''text'', JStr (u16 ''hi there''))]])
    = [u16 ''hi'', u16 ''hi there'']\<close>
  by (simp add: extractUserText_def extractAssistantText_def filterKnownPrompts_def Let_def
        hasText_def trim_def isWhiteSpace_def u16_def)

theorem text_callback_at_end_witness:
  \<open>filter hasText (assistantTexts [] (decodedEvents (hostParse exampleHost)
        [u16 ''{"type":"assistant","text":"hi"}'' @ [0x0A] @ u16 ''{"type":"assistant",'',
         u16 ''"text":"hi there"}'' @ [0x0A]]))
      = [u16 ''hi'', u16 ''hi there'']
   \<and> onTextCalls (pipeThroughAssistantFilter (hostParse exampleHost)
        [u16 ''{"type":"assistant","text":"hi"}'' @ [0x0A] @ u16 ''{"type":"assistant",'',
         u16 ''"text":"hi there"}'' @ [0x0A]]) = [u16 ''hi there'']
   \<and> streamPartial exampleHost
   \<and> fst (collectStdout exampleHost None
        [u16 ''{"type":"assistant","text":"hi"}'' @ [0x0A] @ u16 ''{"type":"assistant",'',
         u16 ''"text":"hi there"}'' @ [0x0A]]) = u16 ''hi there''
   \<and> decodedEvents (hostParse exampleHost)
        [u16 ''{"type":'', u16 ''"system"}'' @ [0x0A], u16 ''plain text'' @ [0x0D, 0x0A]]
      = [JObj [(u16 ''type'', JStr (u16 ''system''))]]
   \<and> extractAssistantText (JObj [(u16 ''type'', JStr (u16 ''system''))]) = []
   \<and> onTextCalls (pipeThroughAssistantFilter (hostParse exampleHost)
        [u16 ''{"type":'', u16 ''"system"}'' @ [0x0A], u16 ''plain text'' @ [0x0D, 0x0A]]) = []
   \<and> fst (collectStdout exampleHost None
        [u16 ''{"type":'', u16 ''"system"}'' @ [0x0A], u16 ''plain text'' @ [0x0D, 0x0A]]) = []\<close>
proof -
  let ?texts = \<open>[u16 ''{"type":"assistant","text":"hi"}'' @ [0x0A] @ u16 ''{"type":"assistant",'',
         u16 ''"text":"hi there"}'' @ [0x0A]]\<close>
  let ?quiet = \<open>[u16 ''{"type":'', u16 ''"system"}'' @ [0x0A], u16 ''plain text'' @ [0x0D, 0x0A]]\<close>
  have hp: "hostParse exampleHost = exampleParse" "streamPartial exampleHost"
    by (simp_all add: exampleHost_def)
  have ex: "extractAssistantText (JObj [(u16 ''type'', JStr (u16 ''system''))]) = []"
    by (simp add: extractAssistantText_def)
  have de: "decodedEvents (hostParse exampleHost) ?quiet
      = [JObj [(u16 ''type'', JStr (u16 ''system''))]]"
    by (simp only: hp example_decoded)
  have h: "\<forall>obj \<in> set (decodedEvents (hostParse exampleHost) ?quiet).
      extractAssistantText obj = []"
    unfolding de using ex by simp
  have ts: "filter hasText (assistantTexts [] (decodedEvents (hostParse exampleHost) ?texts))
      = [u16 ''hi'', u16 ''hi there'']"
    by (simp only: hp example_decoded_texts example_texts)
  note t = text_callback_at_end[of exampleHost ?texts None ?quiet]
  from t have c1: "onTextCalls (pipeThroughAssistantFilter (hostParse exampleHost) ?texts)
      = [u16 ''hi there'']"
    unfolding ts by simp
  from t hp(2) have c2: "fst (collectStdout exampleHost None ?texts) = u16 ''hi there''"
    unfolding ts by simp
  from t h hp(2) have c3:
    "onTextCalls (pipeThroughAssistantFilter (hostParse exampleHost) ?quiet) = []
     \<and> fst (collectStdout exampleHost None ?quiet) = []"
    by blast
  from ts c1 c2 c3 de ex hp(2) show ?thesis by blast
qed

section \<open>Properties of the retry and resume controller\<close>

lemma catchError_fields:
  "invocations (catchError k m v) = invocations v"
  "judgeCalls (catchError k m v) = judgeCalls v"
  "vSessionId (catchError k m v) = vSessionId v"
  "vNeedsContinue (catchError k m v) = vNeedsContinue v"
  "vErrorMessage (catchError k m v) = Some m"
  "vFinalStatus (catchError k m v) = u16 ''error''"
  "length (vExecutions (catchError k m v)) = Suc (length (vExecutions v))"
  "conclusion (last (vExecutions (catchError k m v))) = txtExecutionError"
  by (simp_all add: catchError_def)

lemma checkAndJudge_continue:
  assumes "checkAndJudge w a k res v = (v', False)"
  shows "exitCode res = 0 \<and> stderr res = []"
    "invocations v' = invocations v"
    "judgeCalls v' = judgeCalls v @
       [\<lparr> jcAttempt = k, jcSummary = take 5000 (stdout res), jcVerdict = judgeVerdict w a k res \<rparr>]"
    "result (judgeVerdict w a k res) \<noteq> u16 ''done''"
    "reasonsUsable (hostOf w) (reasons (judgeVerdict w a k res))"
    "vLastSemanticsResult v' = Some (judgeVerdict w a k res)"
    "vNeedsContinue v'"
    "length (vExecutions v') = Suc (length (vExecutions v))"
    "vErrorMessage v' = vErrorMessage v"
    "vFinalStatus v' = vFinalStatus v"
    "vSessionId v' = vSessionId v"
  using assms
  by (auto simp: checkAndJudge_def Let_def judgeVerdict_def reasonsUsable_def
        split: if_splits option.splits sum.splits)

text \<open>How an attempt that ends in break after a returned invocation leaves the state.\<close>

lemma checkAndJudge_leave:
  assumes "checkAndJudge w a k res v = (v', True)"
  shows "invocations v' = invocations v"
    "vSessionId v' = vSessionId v"
    "length (vExecutions v') = Suc (length (vExecutions v))"
    "(exitCode res \<noteq> 0 \<or> stderr res \<noteq> []) \<longrightarrow>
       judgeCalls v' = judgeCalls v \<and> vErrorMessage v' \<noteq> None
       \<and> vFinalStatus v' = u16 ''error'' \<and> vNeedsContinue v' = vNeedsContinue v
       \<and> conclusion (last (vExecutions v')) = txtRuntimeError"
    "exitCode res = 0 \<and> stderr res = [] \<longrightarrow>
       judgeCalls v' = judgeCalls v @
         [\<lparr> jcAttempt = k, jcSummary = take 5000 (stdout res), jcVerdict = judgeVerdict w a k res \<rparr>]
       \<and> \<not> continuing (hostOf w) (judgeVerdict w a k res)"
  using assms
  by (auto simp: checkAndJudge_def Let_def judgeVerdict_def reasonsUsable_def continuing_def
        catchError_def u16_def
        split: if_splits option.splits sum.splits)

lemma attemptBody_unfold:
  "attemptBody w a k v =
     (if k \<noteq> 1 \<and> \<not> truthyId (vSessionId v) then
        (v\<lparr> vErrorMessage := Some txtNoSessionId, vFinalStatus := u16 ''error'' \<rparr>, True)
      else
        (case outcome (attemptInvocation w a k v) of
           Inl message \<Rightarrow>
             (catchError k message (v\<lparr> invocations := invocations v @ [attemptInvocation w a k v] \<rparr>), True)
         | Inr res \<Rightarrow>
             checkAndJudge w a k res
               (v\<lparr> invocations := invocations v @ [attemptInvocation w a k v],
                    vSessionId := sessionIdAfter v res \<rparr>)))"
proof -
  have eq: "\<And>(u::loop_vars) s. u\<lparr> vSessionId := vSessionId u \<rparr> = u" by simp
  show ?thesis
    by (auto simp: attemptBody_def attemptInvocation_def sessionIdAfter_def Let_def
          instructionAfter_def split: sum.splits option.splits)
qed

lemma attemptBody_continue:
  assumes "attemptBody w a k v = (v', False)"
  shows "k = 1 \<or> truthyId (vSessionId v)"
    "invocations v' = invocations v @ [attemptInvocation w a k v]"
    "\<exists>res. outcome (attemptInvocation w a k v) = Inr res
        \<and> exitCode res = 0 \<and> stderr res = []
        \<and> judgeCalls v' = judgeCalls v @
             [\<lparr> jcAttempt = k, jcSummary = take 5000 (stdout res),
                jcVerdict = judgeVerdict w a k res \<rparr>]
        \<and> result (judgeVerdict w a k res) \<noteq> u16 ''done''
        \<and> reasonsUsable (hostOf w) (reasons (judgeVerdict w a k res))
        \<and> vLastSemanticsResult v' = Some (judgeVerdict w a k res)
        \<and> vSessionId v' = sessionIdAfter v res"
    "vNeedsContinue v'"
    "length (vExecutions v') = Suc (length (vExecutions v))"
    "vErrorMessage v' = vErrorMessage v"
    "vFinalStatus v' = vFinalStatus v"
proof -
  from assms have g: "k = 1 \<or> truthyId (vSessionId v)"
    by (auto simp: attemptBody_unfold split: if_splits)
  then show "k = 1 \<or> truthyId (vSessionId v)" .
  from assms g obtain res where
    r: "outcome (attemptInvocation w a k v) = Inr res"
    and c: "checkAndJudge w a k res
              (v\<lparr> invocations := invocations v @ [attemptInvocation w a k v],
                   vSessionId := sessionIdAfter v res \<rparr>) = (v', False)"
    by (auto simp: attemptBody_unfold split: if_splits sum.splits)
  note cj = checkAndJudge_continue[OF c]
  show "invocations v' = invocations v @ [attemptInvocation w a k v]"
    using cj(2) by simp
  show "\<exists>res. outcome (attemptInvocation w a k v) = Inr res
        \<and> exitCode res = 0 \<and> stderr res = []
        \<and> judgeCalls v' = judgeCalls v @
             [\<lparr> jcAttempt = k, jcSummary = take 5000 (stdout res),
                jcVerdict = judgeVerdict w a k res \<rparr>]
        \<and> result (judgeVerdict w a k res) \<noteq> u16 ''done''
        \<and> reasonsUsable (hostOf w) (reasons (judgeVerdict w a k res))
        \<and> vLastSemanticsResult v' = Some (judgeVerdict w a k res)
        \<and> vSessionId v' = sessionIdAfter v res"
    using r cj(1,3,4,5,6,11) by (intro exI[of _ res]) simp
  show "vNeedsContinue v'" using cj(7) .
  show "length (vExecutions v') = Suc (length (vExecutions v))" using cj(8) by simp
  show "vErrorMessage v' = vErrorMessage v" using cj(9) by simp
  show "vFinalStatus v' = vFinalStatus v" using cj(10) by simp
qed

lemma attemptBody_leave:
  assumes "attemptBody w a k v = (v', True)"
  shows "(k \<noteq> 1 \<and> \<not> truthyId (vSessionId v)
          \<and> v' = v\<lparr> vErrorMessage := Some txtNoSessionId, vFinalStatus := u16 ''error'' \<rparr>)
       \<or> ((k = 1 \<or> truthyId (vSessionId v))
          \<and> invocations v' = invocations v @ [attemptInvocation w a k v]
          \<and> length (vExecutions v') = Suc (length (vExecutions v))
          \<and> (\<forall>message. outcome (attemptInvocation w a k v) = Inl message \<longrightarrow>
                judgeCalls v' = judgeCalls v \<and> vErrorMessage v' = Some message
                \<and> vSessionId v' = vSessionId v \<and> vNeedsContinue v' = vNeedsContinue v
                \<and> vFinalStatus v' = u16 ''error''
                \<and> conclusion (last (vExecutions v')) = txtExecutionError)
          \<and> (\<forall>res. outcome (attemptInvocation w a k v) = Inr res \<longrightarrow>
                vSessionId v' = sessionIdAfter v res
                \<and> ((exitCode res \<noteq> 0 \<or> stderr res \<noteq> []) \<longrightarrow>
                      judgeCalls v' = judgeCalls v \<and> vErrorMessage v' \<noteq> None
                      \<and> vFinalStatus v' = u16 ''error'' \<and> vNeedsContinue v' = vNeedsContinue v
                      \<and> conclusion (last (vExecutions v')) = txtRuntimeError)
                \<and> (exitCode res = 0 \<and> stderr res = [] \<longrightarrow>
                      judgeCalls v' = judgeCalls v @
                        [\<lparr> jcAttempt = k, jcSummary = take 5000 (stdout res),
                           jcVerdict = judgeVerdict w a k res \<rparr>]
                      \<and> \<not> continuing (hostOf w) (judgeVerdict w a k res))))"
proof (cases "k \<noteq> 1 \<and> \<not> truthyId (vSessionId v)")
  case True
  with assms show ?thesis by (auto simp: attemptBody_unfold split: if_splits)
next
  case False
  show ?thesis
  proof (cases "outcome (attemptInvocation w a k v)")
    case (Inl message)
    with False assms
    have "v' = catchError k message (v\<lparr> invocations := invocations v @ [attemptInvocation w a k v] \<rparr>)"
      by (auto simp: attemptBody_unfold split: if_splits)
    with False Inl show ?thesis by (simp add: catchError_fields)
  next
    case (Inr res)
    with False assms
    have c: "checkAndJudge w a k res
              (v\<lparr> invocations := invocations v @ [attemptInvocation w a k v],
                   vSessionId := sessionIdAfter v res \<rparr>) = (v', True)"
      by (auto simp: attemptBody_unfold split: if_splits)
    note cl = checkAndJudge_leave[OF c]
    from False Inr cl show ?thesis by simp
  qed
qed

lemma whileLoop_step:
  "vNeedsContinue v \<Longrightarrow> n < retry a \<Longrightarrow> attemptBody w a (n + 1) v = (v', False) \<Longrightarrow>
   whileLoop w a n v = whileLoop w a (n + 1) v'"
  by (subst whileLoop.simps) simp

lemma whileLoop_leave:
  "vNeedsContinue v \<Longrightarrow> n < retry a \<Longrightarrow> attemptBody w a (n + 1) v = (v', True) \<Longrightarrow>
   whileLoop w a n v = (n + 1, v')"
  by (subst whileLoop.simps) simp

lemma whileLoop_stop:
  assumes "\<not> (vNeedsContinue v \<and> n < retry a)"
  shows "whileLoop w a n v = (n, v)"
proof -
  have "whileLoop w a n v =
     (if vNeedsContinue v \<and> n < retry a then
        (case attemptBody w a (n + 1) v of
           (v', leave) \<Rightarrow>
             if leave then (n + 1, v') else whileLoop w a (n + 1) v')
      else (n, v))"
    by (rule whileLoop.simps)
  also have "\<dots> = (n, v)" using assms by (simp only: if_False)
  finally show ?thesis .
qed

lemma reaches_whileLoop:
  "reaches w a n v \<Longrightarrow> whileLoop w a 0 initialVars = whileLoop w a n v"
  by (induction rule: reaches.induct) (simp_all add: whileLoop_step)

text \<open>Every run ends at the loop condition or in an attempt that breaks.\<close>

lemma run_end_from:
  "reaches w a n v \<Longrightarrow>
   \<exists>m u. reaches w a m u
     \<and> ((\<not> (vNeedsContinue u \<and> m < retry a) \<and> whileLoop w a n v = (m, u))
        \<or> (vNeedsContinue u \<and> m < retry a
           \<and> (\<exists>u'. attemptBody w a (m + 1) u = (u', True) \<and> whileLoop w a n v = (m + 1, u'))))"
proof (induction w a n v rule: whileLoop.induct)
  case (1 w a n v)
  show ?case
  proof (cases "vNeedsContinue v \<and> n < retry a")
    case False
    then have "whileLoop w a n v = (n, v)" by (rule whileLoop_stop)
    with False "1.prems" show ?thesis by blast
  next
    case True
    obtain v' leave where b: "attemptBody w a (n + 1) v = (v', leave)"
      by (cases "attemptBody w a (n + 1) v") auto
    show ?thesis
    proof (cases leave)
      case True
      with b have b': "attemptBody w a (n + 1) v = (v', True)" by simp
      with \<open>vNeedsContinue v \<and> n < retry a\<close>
      have "whileLoop w a n v = (n + 1, v')" by (simp add: whileLoop_leave)
      with b' \<open>vNeedsContinue v \<and> n < retry a\<close> "1.prems" show ?thesis
        by (intro exI[of _ n] exI[of _ v]) auto
    next
      case False
      with b True have r: "reaches w a (n + 1) v'"
        using "1.prems" by (auto intro: reaches.step)
      have e: "whileLoop w a n v = whileLoop w a (n + 1) v'"
        using b True False by (simp add: whileLoop_step)
      from "1.IH"[OF True b[symmetric] False r] e show ?thesis by simp
    qed
  qed
qed

lemmas run_end = run_end_from[OF reaches.start]

lemma latestSessionId_snoc:
  "latestSessionId (cs @ [c]) =
     (case returnedSessionId c of Some s \<Rightarrow> Some s | None \<Rightarrow> latestSessionId cs)"
  by (simp add: latestSessionId_def split: option.splits)

lemma sessionIdAfter_latest:
  "outcome c = Inr res \<Longrightarrow> vSessionId v = latestSessionId cs \<Longrightarrow>
   sessionIdAfter v res = latestSessionId (cs @ [c])"
  by (auto simp: latestSessionId_snoc sessionIdAfter_def returnedSessionId_def truthyId_def
        split: option.splits)

text \<open>What holds whenever the loop condition is evaluated.\<close>

lemma reaches_invariant:
  "reaches w a n v \<Longrightarrow>
     0 \<le> n \<and> vNeedsContinue v
     \<and> length (invocations v) = nat n
     \<and> length (judgeCalls v) = nat n
     \<and> length (vExecutions v) = nat n
     \<and> vErrorMessage v = None
     \<and> vFinalStatus v = u16 ''done''
     \<and> (\<forall>c \<in> set (invocations v). cleanInvocation c)
     \<and> (\<forall>c \<in> set (judgeCalls v). jcAttempt c \<le> n \<and> result (jcVerdict c) \<noteq> u16 ''done'')
     \<and> vSessionId v = latestSessionId (invocations v)
     \<and> vLastSemanticsResult v
         = (if judgeCalls v = [] then None else Some (jcVerdict (last (judgeCalls v))))"
proof (induction rule: reaches.induct)
  case start
  show ?case by (simp add: initialVars_def latestSessionId_def)
next
  case (step n v v')
  note b = attemptBody_continue[OF step.hyps(4)]
  from b(3) obtain res where
    r: "outcome (attemptInvocation w a (n + 1) v) = Inr res" "exitCode res = 0" "stderr res = []"
       "judgeCalls v' = judgeCalls v @
             [\<lparr> jcAttempt = n + 1, jcSummary = take 5000 (stdout res),
                jcVerdict = judgeVerdict w a (n + 1) res \<rparr>]"
       "result (judgeVerdict w a (n + 1) res) \<noteq> u16 ''done''"
       "vLastSemanticsResult v' = Some (judgeVerdict w a (n + 1) res)"
       "vSessionId v' = sessionIdAfter v res"
    by blast
  have cl: "cleanInvocation (attemptInvocation w a (n + 1) v)"
    using r(1,2,3) by (simp add: cleanInvocation_def)
  have sid: "vSessionId v' = latestSessionId (invocations v')"
    using r(1,7) b(2) step.IH sessionIdAfter_latest by simp
  from step.IH have n0: "0 \<le> n" by simp
  show ?case
    using step.IH b(2,4,5,6,7) r(4,5,6) cl sid n0
    by (auto simp: nat_add_distrib)
qed

lemma report_fields:
  assumes "whileLoop w a 0 initialVars = (n, vf)"
  shows "attempts (executeTaskWithRetry w a) = n"
    "executions (executeTaskWithRetry w a) = vExecutions vf"
    "errorMessage (executeTaskWithRetry w a) = vErrorMessage vf"
    "finalStatus (executeTaskWithRetry w a)
       = (if vNeedsContinue vf \<and> retry a \<le> n then u16 ''partial'' else vFinalStatus vf)"
    "success (executeTaskWithRetry w a)
       = ((if vNeedsContinue vf \<and> retry a \<le> n then u16 ''partial'' else vFinalStatus vf)
          = u16 ''done'')"
    "invocationsOf w a = invocations vf"
    "judgeCallsOf w a = judgeCalls vf"
    "sessionIdOf w a = vSessionId vf"
  using assms
  by (simp_all add: executeTaskWithRetry_def invocationsOf_def judgeCallsOf_def
        sessionIdOf_def Let_def)

text \<open>An invocation that is not clean is the last one of the run, made by the attempt that
  breaks out of the loop.\<close>

lemma unclean_is_last:
  assumes k: "k < length (invocationsOf w a)"
    and u: "\<not> cleanInvocation (invocationsOf w a ! k)"
  shows "\<exists>m u u'. reaches w a m u \<and> vNeedsContinue u \<and> m < retry a
           \<and> attemptBody w a (m + 1) u = (u', True)
           \<and> whileLoop w a 0 initialVars = (m + 1, u')
           \<and> nat m = k
           \<and> invocations u' = invocations u @ [attemptInvocation w a (m + 1) u]
           \<and> invocationsOf w a ! k = attemptInvocation w a (m + 1) u
           \<and> take k (invocationsOf w a) = invocations u"
proof -
  from run_end[of w a] obtain m u where
    r: "reaches w a m u"
    and e: "(\<not> (vNeedsContinue u \<and> m < retry a) \<and> whileLoop w a 0 initialVars = (m, u))
        \<or> (vNeedsContinue u \<and> m < retry a
           \<and> (\<exists>u'. attemptBody w a (m + 1) u = (u', True)
                  \<and> whileLoop w a 0 initialVars = (m + 1, u')))"
    by blast
  note inv = reaches_invariant[OF r]
  from inv have clean: "\<forall>c \<in> set (invocations u). cleanInvocation c" by simp
  from inv have len: "length (invocations u) = nat m" by simp
  from e show ?thesis
  proof
    assume "\<not> (vNeedsContinue u \<and> m < retry a) \<and> whileLoop w a 0 initialVars = (m, u)"
    then have "invocationsOf w a = invocations u" by (simp add: report_fields)
    with k u clean show ?thesis by (metis nth_mem)
  next
    assume l: "vNeedsContinue u \<and> m < retry a
           \<and> (\<exists>u'. attemptBody w a (m + 1) u = (u', True)
                  \<and> whileLoop w a 0 initialVars = (m + 1, u'))"
    then obtain u' where b: "attemptBody w a (m + 1) u = (u', True)"
      and f: "whileLoop w a 0 initialVars = (m + 1, u')" by blast
    have io: "invocationsOf w a = invocations u'" using f by (simp add: report_fields)
    from attemptBody_leave[OF b] show ?thesis
    proof
      assume "m + 1 \<noteq> 1 \<and> \<not> truthyId (vSessionId u)
          \<and> u' = u\<lparr> vErrorMessage := Some txtNoSessionId, vFinalStatus := u16 ''error'' \<rparr>"
      then have "invocations u' = invocations u" by simp
      with io k u clean show ?thesis by (metis nth_mem)
    next
      assume c: "(m + 1 = 1 \<or> truthyId (vSessionId u))
          \<and> invocations u' = invocations u @ [attemptInvocation w a (m + 1) u]
          \<and> length (vExecutions u') = Suc (length (vExecutions u))
          \<and> (\<forall>message. outcome (attemptInvocation w a (m + 1) u) = Inl message \<longrightarrow>
                judgeCalls u' = judgeCalls u \<and> vErrorMessage u' = Some message
                \<and> vSessionId u' = vSessionId u \<and> vNeedsContinue u' = vNeedsContinue u
                \<and> vFinalStatus u' = u16 ''error''
                \<and> conclusion (last (vExecutions u')) = txtExecutionError)
          \<and> (\<forall>res. outcome (attemptInvocation w a (m + 1) u) = Inr res \<longrightarrow>
                vSessionId u' = sessionIdAfter u res
                \<and> ((exitCode res \<noteq> 0 \<or> stderr res \<noteq> []) \<longrightarrow>
                      judgeCalls u' = judgeCalls u \<and> vErrorMessage u' \<noteq> None
                      \<and> vFinalStatus u' = u16 ''error'' \<and> vNeedsContinue u' = vNeedsContinue u
                      \<and> conclusion (last (vExecutions u')) = txtRuntimeError)
                \<and> (exitCode res = 0 \<and> stderr res = [] \<longrightarrow>
                      judgeCalls u' = judgeCalls u @
                        [\<lparr> jcAttempt = m + 1, jcSummary = take 5000 (stdout res),
                           jcVerdict = judgeVerdict w a (m + 1) res \<rparr>]
                      \<and> \<not> continuing (hostOf w) (judgeVerdict w a (m + 1) res)))"
      then have iu: "invocations u' = invocations u @ [attemptInvocation w a (m + 1) u]" by simp
      have "\<not> k < length (invocations u)"
      proof
        assume "k < length (invocations u)"
        then have "invocationsOf w a ! k \<in> set (invocations u)"
          using io iu by (simp add: nth_append)
        with clean u show False by blast
      qed
      with k io iu len have kk: "k = nat m" by simp
      then have "invocationsOf w a ! k = attemptInvocation w a (m + 1) u"
        using io iu len by (simp add: nth_append)
      moreover have "take k (invocationsOf w a) = invocations u"
        using io iu len kk by simp
      ultimately show ?thesis using r l b f kk iu by blast
    qed
  qed
qed

lemma timeout_settles:
  "procEnd run = TimerExpired \<Longrightarrow>
   signals (settleAgent h sid0 tm call run) = [SIGTERM]
   \<and> outcome (settleAgent h sid0 tm call run)
       = Inl (txtTimeoutHead @ showInt tm @ txtTimeoutMinutes)"
  by (simp add: settleAgent_def)

lemma rejected_is_last:
  assumes k: "k < length (invocationsOf w a)"
    and o: "outcome (invocationsOf w a ! k) = Inl msg"
  shows "length (invocationsOf w a) = k + 1"
    "attempts (executeTaskWithRetry w a) = int k + 1"
    "errorMessage (executeTaskWithRetry w a) = Some msg"
    "length (executions (executeTaskWithRetry w a)) = k + 1"
    "conclusion (last (executions (executeTaskWithRetry w a))) = txtExecutionError"
    "\<forall>c \<in> set (judgeCallsOf w a). jcAttempt c \<le> int k"
    "sessionIdOf w a = latestSessionId (take k (invocationsOf w a))"
proof -
  from o have "\<not> cleanInvocation (invocationsOf w a ! k)" by (simp add: cleanInvocation_def)
  from unclean_is_last[OF k this] obtain m u u' where
    r: "reaches w a m u" and b: "attemptBody w a (m + 1) u = (u', True)"
    and f: "whileLoop w a 0 initialVars = (m + 1, u')"
    and km: "nat m = k"
    and iu: "invocations u' = invocations u @ [attemptInvocation w a (m + 1) u]"
    and ik: "invocationsOf w a ! k = attemptInvocation w a (m + 1) u"
    and tk: "take k (invocationsOf w a) = invocations u"
    by blast
  note inv = reaches_invariant[OF r]
  note rf = report_fields[OF f]
  from inv have m0: "0 \<le> m" by simp
  from m0 km have mk: "m = int k" by linarith
  from o ik have oi: "outcome (attemptInvocation w a (m + 1) u) = Inl msg" by simp
  from attemptBody_leave[OF b] iu oi
  have facts: "judgeCalls u' = judgeCalls u" "vErrorMessage u' = Some msg"
    "vSessionId u' = vSessionId u" "length (vExecutions u') = Suc (length (vExecutions u))"
    "conclusion (last (vExecutions u')) = txtExecutionError"
    by auto
  show "length (invocationsOf w a) = k + 1" using rf(6) iu inv km by simp
  show "attempts (executeTaskWithRetry w a) = int k + 1" using rf(1) mk by simp
  show "errorMessage (executeTaskWithRetry w a) = Some msg" using rf(3) facts(2) by simp
  show "length (executions (executeTaskWithRetry w a)) = k + 1"
    using rf(2) facts(4) inv km by simp
  show "conclusion (last (executions (executeTaskWithRetry w a))) = txtExecutionError"
    using rf(2) facts(5) by simp
  show "\<forall>c \<in> set (judgeCallsOf w a). jcAttempt c \<le> int k"
    using rf(7) facts(1) inv mk by simp
  show "sessionIdOf w a = latestSessionId (take k (invocationsOf w a))"
    using rf(8) facts(3) inv tk by simp
qed

text \<open>
  C5, as amended. When the timer of an invocation expires the process is sent SIGTERM and
  the invocation rejects with the timeout message. A rejected invocation is the last one
  of the run: the attempt is not repeated and no further attempt is made; its message
  becomes the error message of the report, an execution-error entry is appended, the
  judge is not called for the attempt, and the session id held is the one held before.
\<close>

theorem rejected_invocation_stops_loop:
  "(procEnd (env (initialSpawn h p m args)) = TimerExpired \<longrightarrow>
      signals (runCursorAgentInitial h env p m args tm) = [SIGTERM]
      \<and> outcome (runCursorAgentInitial h env p m args tm)
          = Inl (txtTimeoutHead @ showInt tm @ txtTimeoutMinutes))
   \<and> (procEnd (env (resumeSpawn m sid instr)) = TimerExpired \<longrightarrow>
      signals (runCursorAgentResume h env m sid instr tm) = [SIGTERM]
      \<and> outcome (runCursorAgentResume h env m sid instr tm)
          = Inl (txtTimeoutHead @ showInt tm @ txtTimeoutMinutes))
   \<and> (k < length (invocationsOf w a) \<and> outcome (invocationsOf w a ! k) = Inl msg \<longrightarrow>
      length (invocationsOf w a) = k + 1
      \<and> attempts (executeTaskWithRetry w a) = int k + 1
      \<and> errorMessage (executeTaskWithRetry w a) = Some msg
      \<and> length (executions (executeTaskWithRetry w a)) = k + 1
      \<and> conclusion (last (executions (executeTaskWithRetry w a))) = txtExecutionError
      \<and> (\<forall>c \<in> set (judgeCallsOf w a). jcAttempt c \<le> int k)
      \<and> sessionIdOf w a = latestSessionId (take k (invocationsOf w a)))"
proof (intro conjI impI)
  assume "procEnd (env (initialSpawn h p m args)) = TimerExpired"
  then show "signals (runCursorAgentInitial h env p m args tm) = [SIGTERM]"
    and "outcome (runCursorAgentInitial h env p m args tm)
          = Inl (txtTimeoutHead @ showInt tm @ txtTimeoutMinutes)"
    by (simp_all add: runCursorAgentInitial_def Let_def timeout_settles)
next
  assume "procEnd (env (resumeSpawn m sid instr)) = TimerExpired"
  then show "signals (runCursorAgentResume h env m sid instr tm) = [SIGTERM]"
    and "outcome (runCursorAgentResume h env m sid instr tm)
          = Inl (txtTimeoutHead @ showInt tm @ txtTimeoutMinutes)"
    by (simp_all add: runCursorAgentResume_def Let_def timeout_settles)
next
  assume h: "k < length (invocationsOf w a) \<and> outcome (invocationsOf w a ! k) = Inl msg"
  then have k: "k < length (invocationsOf w a)"
    and o: "outcome (invocationsOf w a ! k) = Inl msg" by simp_all
  note rl = rejected_is_last[OF k o]
  show "length (invocationsOf w a) = k + 1" by (rule rl(1))
  show "attempts (executeTaskWithRetry w a) = int k + 1" by (rule rl(2))
  show "errorMessage (executeTaskWithRetry w a) = Some msg" by (rule rl(3))
  show "length (executions (executeTaskWithRetry w a)) = k + 1" by (rule rl(4))
  show "conclusion (last (executions (executeTaskWithRetry w a))) = txtExecutionError"
    by (rule rl(5))
  show "\<forall>c \<in> set (judgeCallsOf w a). jcAttempt c \<le> int k" by (rule rl(6))
  show "sessionIdOf w a = latestSessionId (take k (invocationsOf w a))" by (rule rl(7))
qed

text \<open>A returned invocation with a non-zero exit status or a non-empty error stream is the
  last one of the run. The judge is not called for its attempt, one entry per attempt is
  recorded and an error message is set. The final status is \<open>error\<close> when the attempt is
  not the last one allowed, and \<open>partial\<close> when it is.\<close>

lemma runtime_error_is_last:
  assumes k: "k < length (invocationsOf w a)"
    and o: "outcome (invocationsOf w a ! k) = Inr res"
    and e: "exitCode res \<noteq> 0 \<or> stderr res \<noteq> []"
  shows "length (invocationsOf w a) = k + 1"
    "attempts (executeTaskWithRetry w a) = int k + 1"
    "errorMessage (executeTaskWithRetry w a) \<noteq> None"
    "length (executions (executeTaskWithRetry w a)) = k + 1"
    "\<forall>c \<in> set (judgeCallsOf w a). jcAttempt c \<le> int k"
    "finalStatus (executeTaskWithRetry w a)
       = (if int k + 1 < retry a then u16 ''error'' else u16 ''partial'')"
    "length (judgeCallsOf w a) = k"
proof -
  from o e have "\<not> cleanInvocation (invocationsOf w a ! k)"
    by (auto simp: cleanInvocation_def)
  from unclean_is_last[OF k this] obtain m u u' where
    r: "reaches w a m u" and nc: "vNeedsContinue u" and mr: "m < retry a"
    and b: "attemptBody w a (m + 1) u = (u', True)"
    and f: "whileLoop w a 0 initialVars = (m + 1, u')"
    and km: "nat m = k"
    and iu: "invocations u' = invocations u @ [attemptInvocation w a (m + 1) u]"
    and ik: "invocationsOf w a ! k = attemptInvocation w a (m + 1) u"
    by blast
  note inv = reaches_invariant[OF r]
  note rf = report_fields[OF f]
  from inv have m0: "0 \<le> m" by simp
  from m0 km have mk: "m = int k" by linarith
  from o ik have oi: "outcome (attemptInvocation w a (m + 1) u) = Inr res" by simp
  from attemptBody_leave[OF b] iu oi e
  have facts: "judgeCalls u' = judgeCalls u" "vErrorMessage u' \<noteq> None"
    "vFinalStatus u' = u16 ''error''" "vNeedsContinue u' = vNeedsContinue u"
    "length (vExecutions u') = Suc (length (vExecutions u))"
    by auto
  show "length (invocationsOf w a) = k + 1" using rf(6) iu inv km by simp
  show "attempts (executeTaskWithRetry w a) = int k + 1" using rf(1) mk by simp
  show "errorMessage (executeTaskWithRetry w a) \<noteq> None" using rf(3) facts(2) by simp
  show "length (executions (executeTaskWithRetry w a)) = k + 1"
    using rf(2) facts(5) inv km by simp
  show "\<forall>c \<in> set (judgeCallsOf w a). jcAttempt c \<le> int k"
    using rf(7) facts(1) inv mk by simp
  show "finalStatus (executeTaskWithRetry w a)
       = (if int k + 1 < retry a then u16 ''error'' else u16 ''partial'')"
    using rf(4) facts(3,4) nc mr mk by auto
  show "length (judgeCallsOf w a) = k"
    using rf(7) facts(1) inv km by simp
qed

section \<open>Session ids returned by the agent invoker\<close>

lemma extractSessionId_nonempty: "extractSessionId obj = Some s \<Longrightarrow> s \<noteq> []"
  by (auto split: if_splits jsval.splits)

lemma processObj_session_fields:
  "sessionIdCalls (processObj st obj)
     = (case extractSessionId obj of
          Some sid \<Rightarrow> if streamSessionId st \<noteq> Some sid then sessionIdCalls st @ [sid]
                       else sessionIdCalls st
        | None \<Rightarrow> sessionIdCalls st)"
  "streamSessionId (processObj st obj)
     = (case extractSessionId obj of Some sid \<Rightarrow> Some sid | None \<Rightarrow> streamSessionId st)"
  by (auto simp: processObj_def Let_def split_def simp del: extractSessionId.simps
        split: option.splits)

lemma processObj_ids: "idsNonEmpty st \<Longrightarrow> idsNonEmpty (processObj st obj)"
  using extractSessionId_nonempty[of obj]
  by (auto simp: idsNonEmpty_def processObj_session_fields simp del: extractSessionId.simps
        split: option.splits)

lemma processLine_ids: "idsNonEmpty st \<Longrightarrow> idsNonEmpty (processLine P st line)"
  by (auto simp: processLine_def processObj_ids split: option.splits sum.splits)

lemma foldl_processLine_ids:
  "idsNonEmpty st \<Longrightarrow> idsNonEmpty (foldl (processLine P) st ls)"
  by (induction ls arbitrary: st) (simp_all add: processLine_ids)

lemma idsNonEmpty_rawBuffer: "idsNonEmpty (st\<lparr> rawBuffer := b \<rparr>) = idsNonEmpty st"
  by (simp add: idsNonEmpty_def)

lemma onData_ids: "idsNonEmpty st \<Longrightarrow> idsNonEmpty (onData P st chunk)"
  by (simp add: onData_def Let_def foldl_processLine_ids idsNonEmpty_rawBuffer)

lemma foldl_onData_ids: "idsNonEmpty st \<Longrightarrow> idsNonEmpty (foldl (onData P) st chunks)"
  by (induction chunks arbitrary: st) (simp_all add: onData_ids)

lemma flushLine_ids: "idsNonEmpty st \<Longrightarrow> idsNonEmpty (flushLine P st line)"
  using extractSessionId_nonempty
  by (auto simp: flushLine_def Let_def idsNonEmpty_def simp del: extractSessionId.simps
        split: option.splits sum.splits)

lemma foldl_flushLine_ids:
  "idsNonEmpty st \<Longrightarrow> idsNonEmpty (foldl (flushLine P) st ls)"
  by (induction ls arbitrary: st) (simp_all add: flushLine_ids)

lemma onEnd_ids:
  assumes "idsNonEmpty st"
  shows "\<forall>s \<in> set (onSessionIdCalls (onEnd P st)). s \<noteq> []"
proof -
  define st1 where "st1 = (if trim (rawBuffer st) \<noteq> []
                 then foldl (flushLine P) st
                        (filter (\<lambda>l. trim l \<noteq> []) (splitLines (rawBuffer st)))
                 else st)"
  have i: "idsNonEmpty st1"
    unfolding st1_def using assms by (simp add: foldl_flushLine_ids)
  have "onSessionIdCalls (onEnd P st)
        = sessionIdCalls st1 @ (case streamSessionId st1 of Some sid \<Rightarrow> [sid] | None \<Rightarrow> [])"
    by (simp add: onEnd_def Let_def st1_def)
  with i show ?thesis
    by (cases "streamSessionId st1") (auto simp: idsNonEmpty_def)
qed

lemma filter_ids: "\<forall>s \<in> set (onSessionIdCalls (pipeThroughAssistantFilter P chunks)). s \<noteq> []"
proof -
  have "idsNonEmpty initialFilterState" by (simp add: idsNonEmpty_def initialFilterState_def)
  then have "idsNonEmpty (foldl (onData P) initialFilterState chunks)" by (rule foldl_onData_ids)
  then show ?thesis unfolding pipeThroughAssistantFilter_def by (rule onEnd_ids)
qed

lemma foldl_last_id:
  "truthyId sid \<Longrightarrow> \<forall>s \<in> set calls. s \<noteq> [] \<Longrightarrow>
   truthyId (foldl (\<lambda>sid s. Some s) sid calls)"
  by (induction calls arbitrary: sid) (simp_all add: truthyId_def)

lemma sniffLine_truthy: "truthyId sid \<Longrightarrow> truthyId (sniffLine P sid line)"
  using extractSessionId_nonempty
  by (auto simp: sniffLine_def truthyId_def simp del: extractSessionId.simps
        split: sum.splits option.splits)

lemma sniffChunk_truthy: "truthyId sid \<Longrightarrow> truthyId (sniffChunk P sid chunk)"
proof -
  have "truthyId sid \<Longrightarrow> truthyId (foldl (sniffLine P) sid ls)" for ls sid
    by (induction ls arbitrary: sid) (simp_all add: sniffLine_truthy)
  then show "truthyId sid \<Longrightarrow> truthyId (sniffChunk P sid chunk)"
    by (simp add: sniffChunk_def)
qed

lemma foldl_sniffChunk_truthy:
  "truthyId sid \<Longrightarrow> truthyId (foldl (sniffChunk P) sid chunks)"
  by (induction chunks arbitrary: sid) (simp_all add: sniffChunk_truthy)

lemma collectStdout_truthy: "truthyId sid0 \<Longrightarrow> truthyId (snd (collectStdout h sid0 chunks))"
  by (simp add: collectStdout_def Let_def foldl_last_id filter_ids foldl_sniffChunk_truthy)

lemma settleAgent_spawned: "spawned (settleAgent h sid0 tm call run) = call"
  by (simp add: settleAgent_def split_def Let_def split: proc_end.splits)

lemma settleAgent_truthy:
  "truthyId sid0 \<Longrightarrow> outcome (settleAgent h sid0 tm call run) = Inr res \<Longrightarrow>
   truthyId (sessionId res)"
  using collectStdout_truthy[of sid0 h "stdoutChunks run"]
  by (auto simp: settleAgent_def split_def Let_def split: proc_end.splits)

lemma attemptInvocation_spawned:
  "spawned (attemptInvocation w a k v)
     = (if k = 1 then initialSpawn (hostOf w) (prompt a) (model a) (positionalArgs a)
        else resumeSpawn (model a) (the (vSessionId v))
               (case vLastSemanticsResult v of Some s \<Rightarrow> instructionAfter s | None \<Rightarrow> txtContinue))"
  by (simp add: attemptInvocation_def runCursorAgentInitial_def runCursorAgentResume_def
        Let_def settleAgent_spawned)

lemma resume_returns_id:
  "k \<noteq> 1 \<Longrightarrow> truthyId (vSessionId v) \<Longrightarrow> outcome (attemptInvocation w a k v) = Inr res \<Longrightarrow>
   truthyId (sessionId res)"
proof -
  assume k: "k \<noteq> 1" and t: "truthyId (vSessionId v)"
    and o: "outcome (attemptInvocation w a k v) = Inr res"
  from t have "truthyId (Some (the (vSessionId v)))" by (auto simp: truthyId_def split: option.splits)
  with k o show ?thesis
    by (auto simp: attemptInvocation_def runCursorAgentResume_def Let_def
          intro: settleAgent_truthy)
qed

section \<open>Runs that reach the retry ceiling\<close>

lemma reaches_le: "reaches w a n v \<Longrightarrow> n = 0 \<or> n \<le> retry a"
  by (induction rule: reaches.induct) auto

lemma returned_truthy: "returnedSessionId c = Some s \<Longrightarrow> truthyId (Some s)"
  by (auto simp: returnedSessionId_def split: sum.splits if_splits)

lemma latest_from_first:
  "returnedSessionId c \<noteq> None \<Longrightarrow> truthyId (latestSessionId (c # cs))"
proof (induction cs rule: rev_induct)
  case Nil
  then show ?case
    using returned_truthy[of c] by (auto simp: latestSessionId_def split: option.splits)
next
  case (snoc x xs)
  have "latestSessionId (c # xs @ [x]) =
     (case returnedSessionId x of Some s \<Rightarrow> Some s | None \<Rightarrow> latestSessionId (c # xs))"
    using latestSessionId_snoc[of "c # xs" x] by simp
  with snoc show ?case
    using returned_truthy[of x] by (auto split: option.splits)
qed

lemma done_ne_partial: "u16 ''partial'' \<noteq> u16 ''done''"
  by (simp add: u16_def)

text \<open>A run whose invocations are all clean, whose first invocation returns a session
  id and whose verdicts all ask for continuation ends at the retry ceiling.\<close>

lemma ceiling_run:
  assumes r1: "1 \<le> retry a"
    and cl: "\<forall>c \<in> set (invocationsOf w a). cleanInvocation c"
    and co: "\<forall>c \<in> set (judgeCallsOf w a). continuing (hostOf w) (jcVerdict c)"
    and fi: "returnedSessionId (hd (invocationsOf w a)) \<noteq> None"
  shows "attempts (executeTaskWithRetry w a) = retry a
     \<and> length (invocationsOf w a) = nat (retry a)
     \<and> length (executions (executeTaskWithRetry w a)) = nat (retry a)
     \<and> finalStatus (executeTaskWithRetry w a) = u16 ''partial''
     \<and> \<not> success (executeTaskWithRetry w a)"
proof -
  from run_end[of w a] obtain m u where
    r: "reaches w a m u"
    and e: "(\<not> (vNeedsContinue u \<and> m < retry a) \<and> whileLoop w a 0 initialVars = (m, u))
        \<or> (vNeedsContinue u \<and> m < retry a
           \<and> (\<exists>u'. attemptBody w a (m + 1) u = (u', True)
                  \<and> whileLoop w a 0 initialVars = (m + 1, u')))"
    by blast
  note inv = reaches_invariant[OF r]
  from e show ?thesis
  proof
    assume s: "\<not> (vNeedsContinue u \<and> m < retry a) \<and> whileLoop w a 0 initialVars = (m, u)"
    then have f: "whileLoop w a 0 initialVars = (m, u)" by simp
    from s inv have "retry a \<le> m" by simp
    moreover from reaches_le[OF r] r1 have "m \<le> retry a" by auto
    ultimately have m: "m = retry a" by simp
    note rf = report_fields[OF f]
    from inv m rf show ?thesis by (simp add: done_ne_partial)
  next
    assume l: "vNeedsContinue u \<and> m < retry a
           \<and> (\<exists>u'. attemptBody w a (m + 1) u = (u', True)
                  \<and> whileLoop w a 0 initialVars = (m + 1, u'))"
    then obtain u' where b: "attemptBody w a (m + 1) u = (u', True)"
      and f: "whileLoop w a 0 initialVars = (m + 1, u')" by blast
    note rf = report_fields[OF f]
    from attemptBody_leave[OF b] have False
    proof
      assume c: "m + 1 \<noteq> 1 \<and> \<not> truthyId (vSessionId u)
          \<and> u' = u\<lparr> vErrorMessage := Some txtNoSessionId, vFinalStatus := u16 ''error'' \<rparr>"
      then have iu: "invocationsOf w a = invocations u" using rf(6) by simp
      from c inv have "invocations u \<noteq> []" by auto
      then obtain x xs where x: "invocations u = x # xs" by (cases "invocations u") auto
      with fi iu have "returnedSessionId x \<noteq> None" by simp
      then have "truthyId (latestSessionId (x # xs))" by (rule latest_from_first)
      with x inv have "truthyId (vSessionId u)" by simp
      with c show False by simp
    next
      assume c: "(m + 1 = 1 \<or> truthyId (vSessionId u))
          \<and> invocations u' = invocations u @ [attemptInvocation w a (m + 1) u]
          \<and> length (vExecutions u') = Suc (length (vExecutions u))
          \<and> (\<forall>message. outcome (attemptInvocation w a (m + 1) u) = Inl message \<longrightarrow>
                judgeCalls u' = judgeCalls u \<and> vErrorMessage u' = Some message
                \<and> vSessionId u' = vSessionId u \<and> vNeedsContinue u' = vNeedsContinue u
                \<and> vFinalStatus u' = u16 ''error''
                \<and> conclusion (last (vExecutions u')) = txtExecutionError)
          \<and> (\<forall>res. outcome (attemptInvocation w a (m + 1) u) = Inr res \<longrightarrow>
                vSessionId u' = sessionIdAfter u res
                \<and> ((exitCode res \<noteq> 0 \<or> stderr res \<noteq> []) \<longrightarrow>
                      judgeCalls u' = judgeCalls u \<and> vErrorMessage u' \<noteq> None
                      \<and> vFinalStatus u' = u16 ''error'' \<and> vNeedsContinue u' = vNeedsContinue u
                      \<and> conclusion (last (vExecutions u')) = txtRuntimeError)
                \<and> (exitCode res = 0 \<and> stderr res = [] \<longrightarrow>
                      judgeCalls u' = judgeCalls u @
                        [\<lparr> jcAttempt = m + 1, jcSummary = take 5000 (stdout res),
                           jcVerdict = judgeVerdict w a (m + 1) res \<rparr>]
                      \<and> \<not> continuing (hostOf w) (judgeVerdict w a (m + 1) res)))"
      then have "attemptInvocation w a (m + 1) u \<in> set (invocationsOf w a)"
        using rf(6) by simp
      with cl have "cleanInvocation (attemptInvocation w a (m + 1) u)" by blast
      then obtain res where o: "outcome (attemptInvocation w a (m + 1) u) = Inr res"
        and z: "exitCode res = 0 \<and> stderr res = []"
        by (auto simp: cleanInvocation_def split: sum.splits)
      with c have jc: "judgeCalls u' = judgeCalls u @
                        [\<lparr> jcAttempt = m + 1, jcSummary = take 5000 (stdout res),
                           jcVerdict = judgeVerdict w a (m + 1) res \<rparr>]"
        and nc: "\<not> continuing (hostOf w) (judgeVerdict w a (m + 1) res)" by blast+
      from jc rf(7) have "\<lparr> jcAttempt = m + 1, jcSummary = take 5000 (stdout res),
                           jcVerdict = judgeVerdict w a (m + 1) res \<rparr> \<in> set (judgeCallsOf w a)"
        by simp
      with co have "continuing (hostOf w) (judgeVerdict w a (m + 1) res)" by fastforce
      with nc show False by simp
    qed
    then show ?thesis ..
  qed
qed

section \<open>The shape of resume invocations\<close>

lemma resumeShape_verdicts_append:
  "resumeShape a calls verdicts \<Longrightarrow> resumeShape a calls (verdicts @ extra)"
  by (auto simp: resumeShape_def nth_append)

lemma resumeShape_snoc:
  assumes "resumeShape a calls verdicts"
    and "calls \<noteq> [] \<longrightarrow>
           length calls - 1 < length verdicts
           \<and> returnedSessionId (last calls) \<noteq> None
           \<and> spawned c = resumeSpawn (model a) (the (returnedSessionId (last calls)))
                (instructionAfter (jcVerdict (verdicts ! (length calls - 1))))"
  shows "resumeShape a (calls @ [c]) verdicts"
  unfolding resumeShape_def
proof (intro allI impI)
  fix i
  assume i: "1 \<le> i \<and> i < length (calls @ [c])"
  show "i - 1 < length verdicts
        \<and> returnedSessionId ((calls @ [c]) ! (i - 1)) \<noteq> None
        \<and> spawned ((calls @ [c]) ! i)
            = resumeSpawn (model a) (the (returnedSessionId ((calls @ [c]) ! (i - 1))))
                (instructionAfter (jcVerdict (verdicts ! (i - 1))))"
  proof (cases "i < length calls")
    case True
    then have "i - 1 < length calls" by simp
    with True i assms(1) show ?thesis by (simp add: resumeShape_def nth_append)
  next
    case False
    with i have il: "i = length calls" by simp
    with i have ne: "calls \<noteq> []" by auto
    then have "last calls = calls ! (i - 1)" using il by (simp add: last_conv_nth)
    with assms(2) ne il show ?thesis by (simp add: nth_append)
  qed
qed

lemma attempt_resume_shape:
  assumes r: "reaches w a m u"
    and sh: "resumeShape a (invocations u) (judgeCalls u)"
    and id: "0 < m \<longrightarrow> vSessionId u = returnedSessionId (last (invocations u))"
    and g: "m + 1 = 1 \<or> truthyId (vSessionId u)"
  shows "resumeShape a (invocations u @ [attemptInvocation w a (m + 1) u]) (judgeCalls u)"
proof (rule resumeShape_snoc[OF sh], intro impI)
  assume ne: "invocations u \<noteq> []"
  note inv = reaches_invariant[OF r]
  from inv have li: "length (invocations u) = nat m" and lj: "length (judgeCalls u) = nat m"
    by simp_all
  from ne li have "0 < nat m" by (cases "invocations u") auto
  then have m0: "0 < m" by simp
  with lj have jn: "judgeCalls u \<noteq> []" by auto
  with inv have ls: "vLastSemanticsResult u = Some (jcVerdict (last (judgeCalls u)))" by simp
  from inv have ll: "length (invocations u) = length (judgeCalls u)" by simp
  from id m0 have i2: "vSessionId u = returnedSessionId (last (invocations u))" by simp
  from g m0 have t: "truthyId (vSessionId u)" by simp
  then have nn: "returnedSessionId (last (invocations u)) \<noteq> None"
    using i2 by (auto simp: truthyId_def split: option.splits)
  have "last (judgeCalls u) = judgeCalls u ! (length (invocations u) - 1)"
    using jn ll by (simp add: last_conv_nth)
  moreover have "length (invocations u) - 1 < length (judgeCalls u)"
    using jn ll by (cases "judgeCalls u") auto
  ultimately
  show "length (invocations u) - 1 < length (judgeCalls u)
        \<and> returnedSessionId (last (invocations u)) \<noteq> None
        \<and> spawned (attemptInvocation w a (m + 1) u)
            = resumeSpawn (model a) (the (returnedSessionId (last (invocations u))))
                (instructionAfter (jcVerdict (judgeCalls u ! (length (invocations u) - 1))))"
    using ls m0 i2 nn ll ne by (simp add: attemptInvocation_spawned)
qed

lemma reaches_trace:
  "reaches w a n v \<Longrightarrow>
     (0 < n \<longrightarrow> vSessionId v = returnedSessionId (last (invocations v)))
     \<and> resumeShape a (invocations v) (judgeCalls v)"
proof (induction rule: reaches.induct)
  case start
  show ?case by (simp add: initialVars_def resumeShape_def)
next
  case (step n v v')
  note b = attemptBody_continue[OF step.hyps(4)]
  note inv = reaches_invariant[OF step.hyps(1)]
  from b(3) obtain res where
    o: "outcome (attemptInvocation w a (n + 1) v) = Inr res"
    and jc: "judgeCalls v' = judgeCalls v @
             [\<lparr> jcAttempt = n + 1, jcSummary = take 5000 (stdout res),
                jcVerdict = judgeVerdict w a (n + 1) res \<rparr>]"
    and sid: "vSessionId v' = sessionIdAfter v res"
    by blast
  have ret: "returnedSessionId (attemptInvocation w a (n + 1) v)
             = (if truthyId (sessionId res) then sessionId res else None)"
    using o by (simp add: returnedSessionId_def)
  have "vSessionId v' = returnedSessionId (attemptInvocation w a (n + 1) v)"
  proof (cases "n + 1 = 1")
    case True
    with inv have "vSessionId v = None" by (simp add: latestSessionId_def)
    with sid ret show ?thesis by (simp add: sessionIdAfter_def)
  next
    case False
    with b(1) have t: "truthyId (vSessionId v)" by simp
    from resume_returns_id[OF False t o] sid ret show ?thesis
      by (simp add: sessionIdAfter_def)
  qed
  then have a1: "vSessionId v' = returnedSessionId (last (invocations v'))"
    using b(2) by simp
  have "resumeShape a (invocations v @ [attemptInvocation w a (n + 1) v]) (judgeCalls v)"
    using attempt_resume_shape[OF step.hyps(1)] step.IH b(1) by simp
  then have "resumeShape a (invocations v') (judgeCalls v')"
    using b(2) jc resumeShape_verdicts_append by simp
  with a1 show ?case by simp
qed

lemma run_resume_shape: "resumeShape a (invocationsOf w a) (judgeCallsOf w a)"
proof -
  from run_end[of w a] obtain m u where
    r: "reaches w a m u"
    and e: "(\<not> (vNeedsContinue u \<and> m < retry a) \<and> whileLoop w a 0 initialVars = (m, u))
        \<or> (vNeedsContinue u \<and> m < retry a
           \<and> (\<exists>u'. attemptBody w a (m + 1) u = (u', True)
                  \<and> whileLoop w a 0 initialVars = (m + 1, u')))"
    by blast
  note tr = reaches_trace[OF r]
  from e show ?thesis
  proof
    assume "\<not> (vNeedsContinue u \<and> m < retry a) \<and> whileLoop w a 0 initialVars = (m, u)"
    then have f: "whileLoop w a 0 initialVars = (m, u)" by simp
    from tr report_fields(6,7)[OF f] show ?thesis by simp
  next
    assume "vNeedsContinue u \<and> m < retry a
           \<and> (\<exists>u'. attemptBody w a (m + 1) u = (u', True)
                  \<and> whileLoop w a 0 initialVars = (m + 1, u'))"
    then obtain u' where b: "attemptBody w a (m + 1) u = (u', True)"
      and f: "whileLoop w a 0 initialVars = (m + 1, u')" by blast
    note rf = report_fields(6,7)[OF f]
    from attemptBody_leave[OF b] have "resumeShape a (invocations u') (judgeCalls u')"
    proof
      assume "m + 1 \<noteq> 1 \<and> \<not> truthyId (vSessionId u)
          \<and> u' = u\<lparr> vErrorMessage := Some txtNoSessionId, vFinalStatus := u16 ''error'' \<rparr>"
      with tr show ?thesis by simp
    next
      assume c: "(m + 1 = 1 \<or> truthyId (vSessionId u))
          \<and> invocations u' = invocations u @ [attemptInvocation w a (m + 1) u]
          \<and> length (vExecutions u') = Suc (length (vExecutions u))
          \<and> (\<forall>message. outcome (attemptInvocation w a (m + 1) u) = Inl message \<longrightarrow>
                judgeCalls u' = judgeCalls u \<and> vErrorMessage u' = Some message
                \<and> vSessionId u' = vSessionId u \<and> vNeedsContinue u' = vNeedsContinue u
                \<and> vFinalStatus u' = u16 ''error''
                \<and> conclusion (last (vExecutions u')) = txtExecutionError)
          \<and> (\<forall>res. outcome (attemptInvocation w a (m + 1) u) = Inr res \<longrightarrow>
                vSessionId u' = sessionIdAfter u res
                \<and> ((exitCode res \<noteq> 0 \<or> stderr res \<noteq> []) \<longrightarrow>
                      judgeCalls u' = judgeCalls u \<and> vErrorMessage u' \<noteq> None
                      \<and> vFinalStatus u' = u16 ''error'' \<and> vNeedsContinue u' = vNeedsContinue u
                      \<and> conclusion (last (vExecutions u')) = txtRuntimeError)
                \<and> (exitCode res = 0 \<and> stderr res = [] \<longrightarrow>
                      judgeCalls u' = judgeCalls u @
                        [\<lparr> jcAttempt = m + 1, jcSummary = take 5000 (stdout res),
                           jcVerdict = judgeVerdict w a (m + 1) res \<rparr>]
                      \<and> \<not> continuing (hostOf w) (judgeVerdict w a (m + 1) res)))"
      then have g: "m + 1 = 1 \<or> truthyId (vSessionId u)"
        and iu: "invocations u' = invocations u @ [attemptInvocation w a (m + 1) u]" by simp_all
      have s1: "resumeShape a (invocations u') (judgeCalls u)"
        using attempt_resume_shape[OF r] tr g iu by simp
      have "\<exists>extra. judgeCalls u' = judgeCalls u @ extra"
      proof (cases "outcome (attemptInvocation w a (m + 1) u)")
        case (Inl message)
        with c show ?thesis by simp
      next
        case (Inr res)
        show ?thesis
        proof (cases "exitCode res = 0 \<and> stderr res = []")
          case True
          with c Inr show ?thesis by blast
        next
          case False
          with c Inr have "judgeCalls u' = judgeCalls u" by blast
          then show ?thesis by simp
        qed
      qed
      then obtain extra where "judgeCalls u' = judgeCalls u @ extra" by blast
      with s1 show ?thesis using resumeShape_verdicts_append by simp
    qed
    with rf show ?thesis by simp
  qed
qed

text \<open>From the second evaluation of the loop condition on, a session id is held.\<close>

lemma reaches_session: "reaches w a n v \<Longrightarrow> 2 \<le> n \<longrightarrow> truthyId (vSessionId v)"
proof (induction rule: reaches.induct)
  case start
  show ?case by simp
next
  case (step n v v')
  note b = attemptBody_continue[OF step.hyps(4)]
  note inv = reaches_invariant[OF step.hyps(1)]
  show ?case
  proof
    assume "2 \<le> n + 1"
    then have "n + 1 \<noteq> 1" by simp
    with b(1) have t: "truthyId (vSessionId v)" by simp
    from b(3) obtain res where "vSessionId v' = sessionIdAfter v res" by blast
    with t show "truthyId (vSessionId v')" by (simp add: sessionIdAfter_def)
  qed
qed

text \<open>Every attempt makes one invocation, but for a second attempt that holds no session
  id: it makes none and ends the run.\<close>

lemma attempts_and_invocations:
  "length (invocationsOf w a) = nat (attempts (executeTaskWithRetry w a))
   \<or> (attempts (executeTaskWithRetry w a) = 2 \<and> length (invocationsOf w a) = 1
      \<and> returnedSessionId (invocationsOf w a ! 0) = None
      \<and> errorMessage (executeTaskWithRetry w a) = Some txtNoSessionId)"
proof -
  from run_end[of w a] obtain m u where
    r: "reaches w a m u"
    and e: "(\<not> (vNeedsContinue u \<and> m < retry a) \<and> whileLoop w a 0 initialVars = (m, u))
        \<or> (vNeedsContinue u \<and> m < retry a
           \<and> (\<exists>u'. attemptBody w a (m + 1) u = (u', True)
                  \<and> whileLoop w a 0 initialVars = (m + 1, u')))"
    by blast
  note inv = reaches_invariant[OF r]
  from inv have m0: "0 \<le> m" and len: "length (invocations u) = nat m" by simp_all
  from e show ?thesis
  proof
    assume "\<not> (vNeedsContinue u \<and> m < retry a) \<and> whileLoop w a 0 initialVars = (m, u)"
    then have f: "whileLoop w a 0 initialVars = (m, u)" by simp
    note rf = report_fields[OF f]
    from rf(1,6) len show ?thesis by simp
  next
    assume "vNeedsContinue u \<and> m < retry a
           \<and> (\<exists>u'. attemptBody w a (m + 1) u = (u', True)
                  \<and> whileLoop w a 0 initialVars = (m + 1, u'))"
    then obtain u' where b: "attemptBody w a (m + 1) u = (u', True)"
      and f: "whileLoop w a 0 initialVars = (m + 1, u')" by blast
    note rf = report_fields[OF f]
    from attemptBody_leave[OF b] show ?thesis
    proof
      assume c: "m + 1 \<noteq> 1 \<and> \<not> truthyId (vSessionId u)
          \<and> u' = u\<lparr> vErrorMessage := Some txtNoSessionId, vFinalStatus := u16 ''error'' \<rparr>"
      with m0 have m1: "1 \<le> m" by simp
      from reaches_session[OF r] c have "\<not> 2 \<le> m" by auto
      with m1 have m: "m = 1" by simp
      from c rf(6) have iu: "invocationsOf w a = invocations u" by simp
      with len m have l1: "length (invocationsOf w a) = 1" by simp
      from reaches_trace[OF r] m have "vSessionId u = returnedSessionId (last (invocations u))"
        by simp
      moreover from l1 iu have "last (invocations u) = invocationsOf w a ! 0"
        by (cases "invocations u") auto
      ultimately have s: "vSessionId u = returnedSessionId (invocationsOf w a ! 0)" by simp
      have "returnedSessionId (invocationsOf w a ! 0) = None"
      proof (cases "returnedSessionId (invocationsOf w a ! 0)")
        case None
        then show ?thesis .
      next
        case (Some sid)
        from returned_truthy[OF Some] s Some c show ?thesis by simp
      qed
      moreover from c rf(3) have "errorMessage (executeTaskWithRetry w a) = Some txtNoSessionId"
        by simp
      moreover from rf(1) m have "attempts (executeTaskWithRetry w a) = 2" by simp
      ultimately show ?thesis using l1 by simp
    next
      assume "(m + 1 = 1 \<or> truthyId (vSessionId u))
          \<and> invocations u' = invocations u @ [attemptInvocation w a (m + 1) u]
          \<and> length (vExecutions u') = Suc (length (vExecutions u))
          \<and> (\<forall>message. outcome (attemptInvocation w a (m + 1) u) = Inl message \<longrightarrow>
                judgeCalls u' = judgeCalls u \<and> vErrorMessage u' = Some message
                \<and> vSessionId u' = vSessionId u \<and> vNeedsContinue u' = vNeedsContinue u
                \<and> vFinalStatus u' = u16 ''error''
                \<and> conclusion (last (vExecutions u')) = txtExecutionError)
          \<and> (\<forall>res. outcome (attemptInvocation w a (m + 1) u) = Inr res \<longrightarrow>
                vSessionId u' = sessionIdAfter u res
                \<and> ((exitCode res \<noteq> 0 \<or> stderr res \<noteq> []) \<longrightarrow>
                      judgeCalls u' = judgeCalls u \<and> vErrorMessage u' \<noteq> None
                      \<and> vFinalStatus u' = u16 ''error'' \<and> vNeedsContinue u' = vNeedsContinue u
                      \<and> conclusion (last (vExecutions u')) = txtRuntimeError)
                \<and> (exitCode res = 0 \<and> stderr res = [] \<longrightarrow>
                      judgeCalls u' = judgeCalls u @
                        [\<lparr> jcAttempt = m + 1, jcSummary = take 5000 (stdout res),
                           jcVerdict = judgeVerdict w a (m + 1) res \<rparr>]
                      \<and> \<not> continuing (hostOf w) (judgeVerdict w a (m + 1) res)))"
      then have "invocations u' = invocations u @ [attemptInvocation w a (m + 1) u]" by simp
      with rf(1,6) len m0 show ?thesis by (simp add: nat_add_distrib)
    qed
  qed
qed

text \<open>
  C6, as amended. Every attempt makes one invocation, with one exception: a second
  attempt that finds no session id returned by the first invocation makes none and ends
  the run with the error message for the missing session id. Every invocation after the
  first, which is the invocation of attempt \<open>i + 1\<close> at position \<open>i\<close>, resumes the session
  id returned by the invocation just before it, and its arguments are the model, that
  session id, the fixed flags and the instruction chosen by the verdict just before it:
  the text for carrying out the suggestion after auto, the text for continuing otherwise.
  Nothing is written to the input stream, so the prompt of the task is not sent again.
\<close>

theorem resume_follows_verdict:
  "(1 \<le> i \<and> i < length (invocationsOf w a) \<longrightarrow>
     i - 1 < length (judgeCallsOf w a)
     \<and> (\<exists>sid. returnedSessionId (invocationsOf w a ! (i - 1)) = Some sid \<and> sid \<noteq> []
          \<and> spawnArgs (spawned (invocationsOf w a ! i))
              = [u16 ''--model'', model a, u16 ''--resume='' @ sid, u16 ''--print'',
                 u16 ''--output-format'', u16 ''stream-json'', u16 ''--force'',
                 (if result (jcVerdict (judgeCallsOf w a ! (i - 1))) = u16 ''auto''
                  then txtApplySuggestion else txtContinue)])
     \<and> command (spawned (invocationsOf w a ! i)) = u16 ''cursor-agent''
     \<and> stdinWritten (spawned (invocationsOf w a ! i)) = None)
   \<and> (length (invocationsOf w a) = nat (attempts (executeTaskWithRetry w a))
      \<or> (attempts (executeTaskWithRetry w a) = 2 \<and> length (invocationsOf w a) = 1
         \<and> returnedSessionId (invocationsOf w a ! 0) = None
         \<and> errorMessage (executeTaskWithRetry w a) = Some txtNoSessionId))"
proof (rule conjI)
  show "length (invocationsOf w a) = nat (attempts (executeTaskWithRetry w a))
      \<or> (attempts (executeTaskWithRetry w a) = 2 \<and> length (invocationsOf w a) = 1
         \<and> returnedSessionId (invocationsOf w a ! 0) = None
         \<and> errorMessage (executeTaskWithRetry w a) = Some txtNoSessionId)"
    by (rule attempts_and_invocations)
  show "1 \<le> i \<and> i < length (invocationsOf w a) \<longrightarrow>
     i - 1 < length (judgeCallsOf w a)
     \<and> (\<exists>sid. returnedSessionId (invocationsOf w a ! (i - 1)) = Some sid \<and> sid \<noteq> []
          \<and> spawnArgs (spawned (invocationsOf w a ! i))
              = [u16 ''--model'', model a, u16 ''--resume='' @ sid, u16 ''--print'',
                 u16 ''--output-format'', u16 ''stream-json'', u16 ''--force'',
                 (if result (jcVerdict (judgeCallsOf w a ! (i - 1))) = u16 ''auto''
                  then txtApplySuggestion else txtContinue)])
     \<and> command (spawned (invocationsOf w a ! i)) = u16 ''cursor-agent''
     \<and> stdinWritten (spawned (invocationsOf w a ! i)) = None"
  proof
    assume i: "1 \<le> i \<and> i < length (invocationsOf w a)"
    with run_resume_shape[of a w]
    have l: "i - 1 < length (judgeCallsOf w a)"
      and n: "returnedSessionId (invocationsOf w a ! (i - 1)) \<noteq> None"
      and s: "spawned (invocationsOf w a ! i)
              = resumeSpawn (model a) (the (returnedSessionId (invocationsOf w a ! (i - 1))))
                  (instructionAfter (jcVerdict (judgeCallsOf w a ! (i - 1))))"
      unfolding resumeShape_def by blast+
    from n obtain sid where sid: "returnedSessionId (invocationsOf w a ! (i - 1)) = Some sid"
      by blast
    from returned_truthy[OF sid] have "sid \<noteq> []" by (simp add: truthyId_def)
    with l s sid show "i - 1 < length (judgeCallsOf w a)
       \<and> (\<exists>sid. returnedSessionId (invocationsOf w a ! (i - 1)) = Some sid \<and> sid \<noteq> []
            \<and> spawnArgs (spawned (invocationsOf w a ! i))
                = [u16 ''--model'', model a, u16 ''--resume='' @ sid, u16 ''--print'',
                   u16 ''--output-format'', u16 ''stream-json'', u16 ''--force'',
                   (if result (jcVerdict (judgeCallsOf w a ! (i - 1))) = u16 ''auto''
                    then txtApplySuggestion else txtContinue)])
       \<and> command (spawned (invocationsOf w a ! i)) = u16 ''cursor-agent''
       \<and> stdinWritten (spawned (invocationsOf w a ! i)) = None"
      by (simp add: resumeSpawn_def instructionAfter_def)
  qed
qed

lemma reaches_origins:
  "reaches w a n v \<Longrightarrow>
     (\<forall>c \<in> set (invocations v). \<exists>k u. c = attemptInvocation w a k u)
     \<and> (\<forall>c \<in> set (judgeCalls v). \<exists>k res. jcVerdict c = judgeVerdict w a k res)
     \<and> (invocations v \<noteq> [] \<longrightarrow> hd (invocations v) = attemptInvocation w a 1 initialVars)
     \<and> (n = 0 \<longrightarrow> v = initialVars)"
proof (induction rule: reaches.induct)
  case start
  show ?case by (simp add: initialVars_def)
next
  case (step n v v')
  note b = attemptBody_continue[OF step.hyps(4)]
  note inv = reaches_invariant[OF step.hyps(1)]
  from b(3) obtain res where
    jc: "judgeCalls v' = judgeCalls v @
             [\<lparr> jcAttempt = n + 1, jcSummary = take 5000 (stdout res),
                jcVerdict = judgeVerdict w a (n + 1) res \<rparr>]"
    by blast
  have h: "hd (invocations v') = attemptInvocation w a 1 initialVars"
  proof (cases "invocations v = []")
    case True
    with inv have "n = 0" by simp
    with step.IH have "v = initialVars" by simp
    with True b(2) \<open>n = 0\<close> show ?thesis by simp
  next
    case False
    with step.IH b(2) show ?thesis by simp
  qed
  from inv have "n + 1 \<noteq> 0" by simp
  with step.IH b(2) jc h show ?case by auto
qed

lemma run_origins:
  "(\<forall>c \<in> set (invocationsOf w a). \<exists>k u. c = attemptInvocation w a k u)
   \<and> (\<forall>c \<in> set (judgeCallsOf w a). \<exists>k res. jcVerdict c = judgeVerdict w a k res)
   \<and> (invocationsOf w a \<noteq> [] \<longrightarrow> hd (invocationsOf w a) = attemptInvocation w a 1 initialVars)
   \<and> (1 \<le> retry a \<longrightarrow> invocationsOf w a \<noteq> [])"
proof -
  from run_end[of w a] obtain m u where
    r: "reaches w a m u"
    and e: "(\<not> (vNeedsContinue u \<and> m < retry a) \<and> whileLoop w a 0 initialVars = (m, u))
        \<or> (vNeedsContinue u \<and> m < retry a
           \<and> (\<exists>u'. attemptBody w a (m + 1) u = (u', True)
                  \<and> whileLoop w a 0 initialVars = (m + 1, u')))"
    by blast
  note og = reaches_origins[OF r]
  note inv = reaches_invariant[OF r]
  from e show ?thesis
  proof
    assume s: "\<not> (vNeedsContinue u \<and> m < retry a) \<and> whileLoop w a 0 initialVars = (m, u)"
    then have f: "whileLoop w a 0 initialVars = (m, u)" by simp
    from s inv have "retry a \<le> m" by simp
    then have "1 \<le> retry a \<longrightarrow> invocations u \<noteq> []" using inv by auto
    with og report_fields(6,7)[OF f] show ?thesis by simp
  next
    assume "vNeedsContinue u \<and> m < retry a
           \<and> (\<exists>u'. attemptBody w a (m + 1) u = (u', True)
                  \<and> whileLoop w a 0 initialVars = (m + 1, u'))"
    then obtain u' where b: "attemptBody w a (m + 1) u = (u', True)"
      and f: "whileLoop w a 0 initialVars = (m + 1, u')" by blast
    note rf = report_fields(6,7)[OF f]
    from attemptBody_leave[OF b]
    have "(\<forall>c \<in> set (invocations u'). \<exists>k u. c = attemptInvocation w a k u)
       \<and> (\<forall>c \<in> set (judgeCalls u'). \<exists>k res. jcVerdict c = judgeVerdict w a k res)
       \<and> (invocations u' \<noteq> [] \<longrightarrow> hd (invocations u') = attemptInvocation w a 1 initialVars)
       \<and> invocations u' \<noteq> []"
    proof
      assume c: "m + 1 \<noteq> 1 \<and> \<not> truthyId (vSessionId u)
          \<and> u' = u\<lparr> vErrorMessage := Some txtNoSessionId, vFinalStatus := u16 ''error'' \<rparr>"
      with inv have "invocations u \<noteq> []" by auto
      with c og show ?thesis by simp
    next
      assume c: "(m + 1 = 1 \<or> truthyId (vSessionId u))
          \<and> invocations u' = invocations u @ [attemptInvocation w a (m + 1) u]
          \<and> length (vExecutions u') = Suc (length (vExecutions u))
          \<and> (\<forall>message. outcome (attemptInvocation w a (m + 1) u) = Inl message \<longrightarrow>
                judgeCalls u' = judgeCalls u \<and> vErrorMessage u' = Some message
                \<and> vSessionId u' = vSessionId u \<and> vNeedsContinue u' = vNeedsContinue u
                \<and> vFinalStatus u' = u16 ''error''
                \<and> conclusion (last (vExecutions u')) = txtExecutionError)
          \<and> (\<forall>res. outcome (attemptInvocation w a (m + 1) u) = Inr res \<longrightarrow>
                vSessionId u' = sessionIdAfter u res
                \<and> ((exitCode res \<noteq> 0 \<or> stderr res \<noteq> []) \<longrightarrow>
                      judgeCalls u' = judgeCalls u \<and> vErrorMessage u' \<noteq> None
                      \<and> vFinalStatus u' = u16 ''error'' \<and> vNeedsContinue u' = vNeedsContinue u
                      \<and> conclusion (last (vExecutions u')) = txtRuntimeError)
                \<and> (exitCode res = 0 \<and> stderr res = [] \<longrightarrow>
                      judgeCalls u' = judgeCalls u @
                        [\<lparr> jcAttempt = m + 1, jcSummary = take 5000 (stdout res),
                           jcVerdict = judgeVerdict w a (m + 1) res \<rparr>]
                      \<and> \<not> continuing (hostOf w) (judgeVerdict w a (m + 1) res)))"
      then have iu: "invocations u' = invocations u @ [attemptInvocation w a (m + 1) u]" by simp
      have h: "hd (invocations u') = attemptInvocation w a 1 initialVars"
      proof (cases "invocations u = []")
        case True
        with inv have "m = 0" by simp
        with og have "u = initialVars" by simp
        with True iu \<open>m = 0\<close> show ?thesis by simp
      next
        case False
        with og iu show ?thesis by simp
      qed
      have j: "\<forall>c \<in> set (judgeCalls u'). \<exists>k res. jcVerdict c = judgeVerdict w a k res"
      proof (cases "outcome (attemptInvocation w a (m + 1) u)")
        case (Inl message)
        with c og show ?thesis by simp
      next
        case (Inr res)
        show ?thesis
        proof (cases "exitCode res = 0 \<and> stderr res = []")
          case True
          with c Inr have "judgeCalls u' = judgeCalls u @
                        [\<lparr> jcAttempt = m + 1, jcSummary = take 5000 (stdout res),
                           jcVerdict = judgeVerdict w a (m + 1) res \<rparr>]" by blast
          with og show ?thesis by auto
        next
          case False
          with c Inr have "judgeCalls u' = judgeCalls u" by blast
          with og show ?thesis by simp
        qed
      qed
      from og iu h j show ?thesis by auto
    qed
    with rf show ?thesis by simp
  qed
qed

text \<open>An attempt whose invocation is clean and whose verdict is resume or auto with
  usable reasons does not leave the loop.\<close>

lemma checkAndJudge_continues:
  "exitCode res = 0 \<Longrightarrow> stderr res = [] \<Longrightarrow> continuing (hostOf w) (judgeVerdict w a k res) \<Longrightarrow>
   snd (checkAndJudge w a k res v) = False"
  by (auto simp: checkAndJudge_def Let_def judgeVerdict_def continuing_def reasonsUsable_def
        u16_def split: option.splits sum.splits)

lemma attemptBody_continues:
  "k = 1 \<or> truthyId (vSessionId v) \<Longrightarrow> outcome (attemptInvocation w a k v) = Inr res \<Longrightarrow>
   exitCode res = 0 \<Longrightarrow> stderr res = [] \<Longrightarrow> continuing (hostOf w) (judgeVerdict w a k res) \<Longrightarrow>
   snd (attemptBody w a k v) = False"
  by (auto simp: attemptBody_unfold checkAndJudge_continues)

section \<open>Evaluation in the example worlds\<close>

lemma trim_session_line:
  \<open>trim (u16 ''{"session_id":"s1"}'') = u16 ''{"session_id":"s1"}''\<close>
  by (simp add: trim_def isWhiteSpace_def u16_def)

lemma split_session_chunk:
  \<open>splitLines (u16 ''{"session_id":"s1"}'' @ [0x0A]) = [u16 ''{"session_id":"s1"}'', []]\<close>
  by (simp add: u16_def)

lemma json_session_line:
  \<open>jsonOfLine (u16 ''{"session_id":"s1"}'') = Some (u16 ''{"session_id":"s1"}'')\<close>
  unfolding jsonOfLine_def trim_session_line
  by (simp add: u16_def isOpening_def)

lemma parse_session_line:
  \<open>exampleParse (u16 ''{"session_id":"s1"}'')
     = Inr (JObj [(u16 ''session_id'', JStr (u16 ''s1''))])\<close>
  by (simp add: exampleParse_def u16_def)

lemma process_session_obj:
  "processObj initialFilterState (JObj [(u16 ''session_id'', JStr (u16 ''s1''))])
     = initialFilterState\<lparr> streamSessionId := Some (u16 ''s1''), sessionIdCalls := [u16 ''s1''] \<rparr>"
proof -
  have e: "extractSessionId (JObj [(u16 ''session_id'', JStr (u16 ''s1''))]) = Some (u16 ''s1'')"
    by (simp add: u16_def)
  have u: "extractUserText (JObj [(u16 ''session_id'', JStr (u16 ''s1''))]) = None"
    by (simp add: extractUserText_def u16_def)
  have t: "extractAssistantText (JObj [(u16 ''session_id'', JStr (u16 ''s1''))]) = []"
    by (simp add: extractAssistantText_def Let_def u16_def)
  show ?thesis
    by (simp add: processObj_def e u t Let_def filterKnownPrompts_def assistantStep_def
          hasText_def initialFilterState_def del: extractSessionId.simps)
qed

lemma filter_session_chunk:
  \<open>pipeThroughAssistantFilter exampleParse [u16 ''{"session_id":"s1"}'' @ [0x0A]]
     = \<lparr> onTextCalls = [], onSessionIdCalls = [u16 ''s1'', u16 ''s1''],
         finalState = initialFilterState\<lparr> streamSessionId := Some (u16 ''s1''),
                                          sessionIdCalls := [u16 ''s1''] \<rparr> \<rparr>\<close>
proof -
  have d: \<open>onData exampleParse initialFilterState (u16 ''{"session_id":"s1"}'' @ [0x0A])
       = initialFilterState\<lparr> streamSessionId := Some (u16 ''s1''), sessionIdCalls := [u16 ''s1''] \<rparr>\<close>
    unfolding onData_def
    by (simp add: initialFilterState_def[THEN arg_cong, of rawBuffer] Let_def)
       (simp add: initialFilterState_def split_session_chunk processLine_def json_session_line
          parse_session_line process_session_obj[unfolded initialFilterState_def])
  show ?thesis
    unfolding pipeThroughAssistantFilter_def
    by (simp add: d) (simp add: onEnd_def initialFilterState_def Let_def trim_def)
qed

lemma collect_with_session:
  "collectStdout exampleHost sid0 (stdoutChunks runWithSession) = ([], Some (u16 ''s1''))"
  by (simp add: collectStdout_def exampleHost_def runWithSession_def filter_session_chunk Let_def)

lemma collect_without_session:
  "collectStdout exampleHost sid0 (stdoutChunks runWithoutSession) = ([], sid0)"
  by (simp add: collectStdout_def exampleHost_def runWithoutSession_def Let_def
        pipeThroughAssistantFilter_def onEnd_def initialFilterState_def trim_def)

lemma run_fields:
  "procEnd runWithSession = Close (Some 0)" "stderrChunks runWithSession = []"
  "elapsedMs runWithSession = 1000"
  "procEnd runWithoutSession = Close (Some 0)" "stderrChunks runWithoutSession = []"
  "elapsedMs runWithoutSession = 1000"
  "procEnd runFailing = Close (Some 1)" "procEnd runTimingOut = TimerExpired"
  by (simp_all add: runWithSession_def runWithoutSession_def runFailing_def runTimingOut_def)

lemma trim_empty: "trim [] = []"
  by (simp add: trim_def)

lemma settle_with_session:
  "settleAgent exampleHost sid0 tm call runWithSession
     = \<lparr> spawned = call, signals = [],
         outcome = Inr \<lparr> exitCode = 0, stdout = [], stderr = [], durationMs = 1000,
                         sessionId = Some (u16 ''s1'') \<rparr> \<rparr>"
  by (simp add: settleAgent_def collect_with_session run_fields trim_empty)

lemma settle_without_session:
  "settleAgent exampleHost sid0 tm call runWithoutSession
     = \<lparr> spawned = call, signals = [],
         outcome = Inr \<lparr> exitCode = 0, stdout = [], stderr = [], durationMs = 1000,
                         sessionId = sid0 \<rparr> \<rparr>"
  by (simp add: settleAgent_def collect_without_session run_fields trim_empty)

lemma settle_failing:
  "\<exists>res. outcome (settleAgent exampleHost sid0 tm call runFailing) = Inr res \<and> exitCode res = 1"
  by (simp add: settleAgent_def run_fields split_def Let_def)

lemma settle_timing_out:
  "settleAgent exampleHost sid0 tm call runTimingOut
     = \<lparr> spawned = call, signals = [SIGTERM],
         outcome = Inl (txtTimeoutHead @ showInt tm @ txtTimeoutMinutes) \<rparr>"
  by (simp add: settleAgent_def run_fields)

lemma attemptInvocation_example:
  "\<exists>sid0 call. attemptInvocation (exampleWorld run judge) a k v
     = settleAgent exampleHost sid0 (timeoutMinutes a) call run
     \<and> (k = 1 \<longrightarrow> sid0 = None)"
  by (auto simp: attemptInvocation_def runCursorAgentInitial_def runCursorAgentResume_def
        exampleWorld_def Let_def)


lemma call_judge_printing:
  "snd (runCallLLMOnce (\<lambda>args. judgePrinting doc) args t)
     = Inr \<lparr> llmExitCode = 0, llmStdout = trim doc, llmStderr = [], llmDurationMs = 500 \<rparr>"
  by (simp add: runCallLLMOnce_def judgePrinting_def trim_empty)

lemma trim_docs:
  \<open>trim (u16 ''{"result":"resume"}'') = u16 ''{"result":"resume"}''\<close>
  \<open>trim (u16 ''{"result":"auto"}'') = u16 ''{"result":"auto"}''\<close>
  \<open>trim (u16 ''{"result":"done"}'') = u16 ''{"result":"done"}''\<close>
  \<open>trim (u16 ''{"result":"maybe"}'') = u16 ''{"result":"maybe"}''\<close>
  \<open>trim (u16 ''oops'') = u16 ''oops''\<close>
  by (simp_all add: trim_def isWhiteSpace_def u16_def)

lemma parse_docs:
  \<open>exampleParse (u16 ''{"result":"resume"}'') = Inr (JObj [(u16 ''result'', JStr (u16 ''resume''))])\<close>
  \<open>exampleParse (u16 ''{"result":"auto"}'') = Inr (JObj [(u16 ''result'', JStr (u16 ''auto''))])\<close>
  \<open>exampleParse (u16 ''{"result":"done"}'') = Inr (JObj [(u16 ''result'', JStr (u16 ''done''))])\<close>
  \<open>exampleParse (u16 ''{"result":"maybe"}'') = Inr (JObj [(u16 ''result'', JStr (u16 ''maybe''))])\<close>
  \<open>exampleParse (u16 ''oops'') = Inl (u16 ''Unexpected token'')\<close>
  \<open>exampleParse [] = Inl (u16 ''Unexpected token'')\<close>
  by (simp_all add: exampleParse_def u16_def)

lemma host_fields:
  "hostParse exampleHost = exampleParse" "typeErrorMessage exampleHost e = u16 ''TypeError''"
  "strGtZero exampleHost s = False"
  by (simp_all add: exampleHost_def)

lemma get_result:
  "get (JObj [(u16 ''result'', v)]) ''result'' = v"
  by (simp add: u16_def)

lemma get_reasons:
  "get (JObj [(u16 ''result'', v)]) ''reasons'' = JUndefined"
  by (simp add: u16_def)


lemma gt0_length_one: "gt0 h (lengthOf (JArr [x])) = Some True"
  by (simp add: u16_def)

lemma logReasons_one_string: "logReasons h (JArr [JStr s]) = None"
  by (simp add: logReasons_def gt0_length_one del: lengthOf.simps gt0.simps)

lemma reasonText_one_string:
  "reasonText h (JArr [JStr s]) = Inr (take 100 s @ (if 100 < length s then u16 ''...'' else []))"
  by (simp add: reasonText_def gt0_length_one del: lengthOf.simps gt0.simps)

lemma parse_example_verdicts:
  \<open>parseLLMResult exampleHost (u16 ''{"result":"resume"}'')
     = \<lparr> result = u16 ''resume'', reasons = JArr [JStr (u16 ''resume'')] \<rparr>\<close>
  \<open>parseLLMResult exampleHost (u16 ''{"result":"auto"}'')
     = \<lparr> result = u16 ''auto'', reasons = JArr [JStr (u16 ''auto'')] \<rparr>\<close>
  \<open>parseLLMResult exampleHost (u16 ''{"result":"done"}'')
     = \<lparr> result = u16 ''done'', reasons = JArr [JStr (u16 ''done'')] \<rparr>\<close>
  by (simp_all add: parseLLMResult_def trim_docs host_fields parse_docs get_result get_reasons
        del: get.simps)

lemma interpret_example_verdicts:
  \<open>interpretSemanticsViaLLM exampleHost (\<lambda>args. judgePrinting (u16 ''{"result":"resume"}'')) jm s
     = \<lparr> result = u16 ''resume'', reasons = JArr [JStr (u16 ''resume'')] \<rparr>\<close>
  \<open>interpretSemanticsViaLLM exampleHost (\<lambda>args. judgePrinting (u16 ''{"result":"auto"}'')) jm s
     = \<lparr> result = u16 ''auto'', reasons = JArr [JStr (u16 ''auto'')] \<rparr>\<close>
  \<open>interpretSemanticsViaLLM exampleHost (\<lambda>args. judgePrinting (u16 ''{"result":"done"}'')) jm s
     = \<lparr> result = u16 ''done'', reasons = JArr [JStr (u16 ''done'')] \<rparr>\<close>
  by (simp_all add: interpretSemanticsViaLLM_def call_judge_printing trim_docs
        parse_example_verdicts logReasons_one_string Let_def)

lemma example_judgeVerdict:
  \<open>judgeVerdict (exampleWorld run (judgePrinting (u16 ''{"result":"resume"}''))) a k res
     = \<lparr> result = u16 ''resume'', reasons = JArr [JStr (u16 ''resume'')] \<rparr>\<close>
  \<open>judgeVerdict (exampleWorld run (judgePrinting (u16 ''{"result":"auto"}''))) a k res
     = \<lparr> result = u16 ''auto'', reasons = JArr [JStr (u16 ''auto'')] \<rparr>\<close>
  by (simp_all add: judgeVerdict_def exampleWorld_def interpret_example_verdicts)

lemma example_continuing:
  "continuing exampleHost \<lparr> result = u16 ''resume'', reasons = JArr [JStr (u16 ''resume'')] \<rparr>"
  "continuing exampleHost \<lparr> result = u16 ''auto'', reasons = JArr [JStr (u16 ''auto'')] \<rparr>"
  by (simp_all add: continuing_def reasonsUsable_def reasonText_one_string)

lemma example_world_fields:
  "hostOf (exampleWorld run judge) = exampleHost"
  by (simp add: exampleWorld_def)

lemma example_args_fields:
  "retry (exampleArgs r) = r" "model (exampleArgs r) = u16 ''m1''"
  "timeoutMinutes (exampleArgs r) = 30"
  by (simp_all add: exampleArgs_def)

text \<open>The invocations of the example worlds.\<close>

lemma example_invocation_with_session:
  "\<exists>call. attemptInvocation (exampleWorld runWithSession judge) a k v
     = \<lparr> spawned = call, signals = [],
         outcome = Inr \<lparr> exitCode = 0, stdout = [], stderr = [], durationMs = 1000,
                         sessionId = Some (u16 ''s1'') \<rparr> \<rparr>"
  using attemptInvocation_example[of runWithSession judge a k v]
  by (auto simp: settle_with_session)

lemma example_invocation_without_session:
  "\<exists>call. attemptInvocation (exampleWorld runWithoutSession judge) a 1 v
     = \<lparr> spawned = call, signals = [],
         outcome = Inr \<lparr> exitCode = 0, stdout = [], stderr = [], durationMs = 1000,
                         sessionId = None \<rparr> \<rparr>"
  using attemptInvocation_example[of runWithoutSession judge a 1 v]
  by (auto simp: settle_without_session)

lemma example_invocation_failing:
  "\<exists>res. outcome (attemptInvocation (exampleWorld runFailing judge) a k v) = Inr res
     \<and> exitCode res = 1"
  using attemptInvocation_example[of runFailing judge a k v] settle_failing
  by metis

lemma example_invocation_timing_out:
  "outcome (attemptInvocation (exampleWorld runTimingOut judge) a k v)
     = Inl (txtTimeoutHead @ showInt (timeoutMinutes a) @ txtTimeoutMinutes)
   \<and> signals (attemptInvocation (exampleWorld runTimingOut judge) a k v) = [SIGTERM]"
  using attemptInvocation_example[of runTimingOut judge a k v]
  by (auto simp: settle_timing_out)

lemma s1_nonempty: "u16 ''s1'' \<noteq> []"
  by (simp add: u16_def)

lemma example_clean_with_session:
  "cleanInvocation (attemptInvocation (exampleWorld runWithSession judge) a k v)"
  "returnedSessionId (attemptInvocation (exampleWorld runWithSession judge) a k v)
     = Some (u16 ''s1'')"
  using example_invocation_with_session[of judge a k v]
  by (auto simp: cleanInvocation_def returnedSessionId_def truthyId_def s1_nonempty)

section \<open>Properties of the judge client\<close>





















section \<open>Runs in the example worlds\<close>

lemma example_session_run:
  "\<forall>c \<in> set (invocationsOf (exampleWorld runWithSession judge) a).
     cleanInvocation c \<and> returnedSessionId c = Some (u16 ''s1'')"
proof
  fix c
  assume "c \<in> set (invocationsOf (exampleWorld runWithSession judge) a)"
  with run_origins[of "exampleWorld runWithSession judge" a]
  obtain k u where "c = attemptInvocation (exampleWorld runWithSession judge) a k u" by blast
  then show "cleanInvocation c \<and> returnedSessionId c = Some (u16 ''s1'')"
    by (simp add: example_clean_with_session)
qed

lemma example_resume_verdicts:
  \<open>\<forall>c \<in> set (judgeCallsOf (exampleWorld run (judgePrinting (u16 ''{"result":"resume"}''))) a).
     jcVerdict c = \<lparr> result = u16 ''resume'', reasons = JArr [JStr (u16 ''resume'')] \<rparr>\<close>
proof
  fix c
  assume \<open>c \<in> set (judgeCallsOf (exampleWorld run (judgePrinting (u16 ''{"result":"resume"}''))) a)\<close>
  with run_origins[of \<open>exampleWorld run (judgePrinting (u16 ''{"result":"resume"}''))\<close> a]
  obtain k res where
    \<open>jcVerdict c = judgeVerdict (exampleWorld run (judgePrinting (u16 ''{"result":"resume"}''))) a k res\<close>
    by blast
  then show "jcVerdict c = \<lparr> result = u16 ''resume'', reasons = JArr [JStr (u16 ''resume'')] \<rparr>"
    by (simp add: example_judgeVerdict)
qed

lemma example_auto_verdicts:
  \<open>\<forall>c \<in> set (judgeCallsOf (exampleWorld run (judgePrinting (u16 ''{"result":"auto"}''))) a).
     jcVerdict c = \<lparr> result = u16 ''auto'', reasons = JArr [JStr (u16 ''auto'')] \<rparr>\<close>
proof
  fix c
  assume \<open>c \<in> set (judgeCallsOf (exampleWorld run (judgePrinting (u16 ''{"result":"auto"}''))) a)\<close>
  with run_origins[of \<open>exampleWorld run (judgePrinting (u16 ''{"result":"auto"}''))\<close> a]
  obtain k res where
    \<open>jcVerdict c = judgeVerdict (exampleWorld run (judgePrinting (u16 ''{"result":"auto"}''))) a k res\<close>
    by blast
  then show "jcVerdict c = \<lparr> result = u16 ''auto'', reasons = JArr [JStr (u16 ''auto'')] \<rparr>"
    by (simp add: example_judgeVerdict)
qed

lemma example_first_invocation:
  "1 \<le> retry a \<Longrightarrow>
   invocationsOf w a \<noteq> []
   \<and> hd (invocationsOf w a) = attemptInvocation w a 1 initialVars
   \<and> invocationsOf w a ! 0 = attemptInvocation w a 1 initialVars"
  using run_origins[of w a] by (simp add: hd_conv_nth)

text \<open>
  C2, as amended. With a retry ceiling of at least 1, when every invocation of the run
  returns exit status 0 and an empty error stream, the initial invocation returns a
  session id, and every verdict of the judge is resume or auto with reasons the
  controller can record, the run makes exactly as many attempts as the ceiling and its
  report has final status partial and success false.
\<close>

theorem retry_ceiling_partial:
  assumes "1 \<le> retry a"
    and "\<forall>c \<in> set (invocationsOf w a). cleanInvocation c"
    and "\<forall>c \<in> set (judgeCallsOf w a). continuing (hostOf w) (jcVerdict c)"
    and "returnedSessionId (hd (invocationsOf w a)) \<noteq> None"
  shows "attempts (executeTaskWithRetry w a) = retry a
     \<and> length (invocationsOf w a) = nat (retry a)
     \<and> length (executions (executeTaskWithRetry w a)) = nat (retry a)
     \<and> finalStatus (executeTaskWithRetry w a) = u16 ''partial''
     \<and> \<not> success (executeTaskWithRetry w a)"
  using assms by (rule ceiling_run)

theorem retry_ceiling_partial_witness:
  \<open>retry (exampleArgs 2) = 2
   \<and> attempts (executeTaskWithRetry
        (exampleWorld runWithSession (judgePrinting (u16 ''{"result":"resume"}''))) (exampleArgs 2)) = 2
   \<and> length (invocationsOf
        (exampleWorld runWithSession (judgePrinting (u16 ''{"result":"resume"}''))) (exampleArgs 2)) = 2
   \<and> length (executions (executeTaskWithRetry
        (exampleWorld runWithSession (judgePrinting (u16 ''{"result":"resume"}''))) (exampleArgs 2))) = 2
   \<and> finalStatus (executeTaskWithRetry
        (exampleWorld runWithSession (judgePrinting (u16 ''{"result":"resume"}''))) (exampleArgs 2))
       = u16 ''partial''
   \<and> success (executeTaskWithRetry
        (exampleWorld runWithSession (judgePrinting (u16 ''{"result":"resume"}''))) (exampleArgs 2))
       = False\<close>
proof -
  let ?w = \<open>exampleWorld runWithSession (judgePrinting (u16 ''{"result":"resume"}''))\<close>
  let ?a = "exampleArgs 2"
  have r: "1 \<le> retry ?a" by (simp add: example_args_fields)
  have cl: "\<forall>c \<in> set (invocationsOf ?w ?a). cleanInvocation c"
    using example_session_run by blast
  have co: "\<forall>c \<in> set (judgeCallsOf ?w ?a). continuing (hostOf ?w) (jcVerdict c)"
    using example_resume_verdicts[of runWithSession ?a]
    by (simp add: example_world_fields example_continuing)
  have fi: "returnedSessionId (hd (invocationsOf ?w ?a)) \<noteq> None"
    using example_first_invocation[OF r, of ?w]
    by (simp add: example_clean_with_session)
  from retry_ceiling_partial[OF r cl co fi] show ?thesis
    by (simp add: example_args_fields)
qed

lemma initial_fields:
  "vNeedsContinue initialVars" "vSessionId initialVars = None" "invocations initialVars = []"
  "judgeCalls initialVars = []"
  by (simp_all add: initialVars_def)

text \<open>A run in which the first invocation succeeds without a session id.\<close>

lemma no_session_run:
  \<open>retry (exampleArgs 3) = 3
   \<and> length (invocationsOf
        (exampleWorld runWithoutSession (judgePrinting (u16 ''{"result":"resume"}''))) (exampleArgs 3)) = 1
   \<and> cleanInvocation (hd (invocationsOf
        (exampleWorld runWithoutSession (judgePrinting (u16 ''{"result":"resume"}''))) (exampleArgs 3)))
   \<and> length (judgeCallsOf
        (exampleWorld runWithoutSession (judgePrinting (u16 ''{"result":"resume"}''))) (exampleArgs 3)) = 1
   \<and> result (jcVerdict (hd (judgeCallsOf
        (exampleWorld runWithoutSession (judgePrinting (u16 ''{"result":"resume"}''))) (exampleArgs 3))))
       = u16 ''resume''
   \<and> attempts (executeTaskWithRetry
        (exampleWorld runWithoutSession (judgePrinting (u16 ''{"result":"resume"}''))) (exampleArgs 3)) = 2
   \<and> finalStatus (executeTaskWithRetry
        (exampleWorld runWithoutSession (judgePrinting (u16 ''{"result":"resume"}''))) (exampleArgs 3))
       = u16 ''error''
   \<and> errorMessage (executeTaskWithRetry
        (exampleWorld runWithoutSession (judgePrinting (u16 ''{"result":"resume"}''))) (exampleArgs 3))
       = Some txtNoSessionId\<close>
proof -
  let ?w = \<open>exampleWorld runWithoutSession (judgePrinting (u16 ''{"result":"resume"}''))\<close>
  let ?a = "exampleArgs 3"
  let ?res = "\<lparr> exitCode = 0, stdout = [], stderr = [], durationMs = 1000, sessionId = None \<rparr>"
  from example_invocation_without_session obtain call where
    i1: "attemptInvocation ?w ?a 1 initialVars
           = \<lparr> spawned = call, signals = [], outcome = Inr ?res \<rparr>"
    by blast
  then have o: "outcome (attemptInvocation ?w ?a 1 initialVars) = Inr ?res" by simp
  have cont: "continuing (hostOf ?w) (judgeVerdict ?w ?a 1 ?res)"
    by (simp add: example_world_fields example_judgeVerdict example_continuing)
  have "snd (attemptBody ?w ?a 1 initialVars) = False"
    by (rule attemptBody_continues[OF _ o _ _ cont]) simp_all
  then obtain v1 where b1: "attemptBody ?w ?a 1 initialVars = (v1, False)"
    by (cases "attemptBody ?w ?a 1 initialVars") auto
  note c = attemptBody_continue[OF b1]
  from c(3) o have jc: "judgeCalls v1 = judgeCalls initialVars @
             [\<lparr> jcAttempt = 1, jcSummary = take 5000 (stdout ?res),
                jcVerdict = judgeVerdict ?w ?a 1 ?res \<rparr>]"
    and sid: "vSessionId v1 = sessionIdAfter initialVars ?res"
    by auto
  from sid have nos: "\<not> truthyId (vSessionId v1)"
    by (simp add: sessionIdAfter_def truthyId_def initial_fields)
  have w1: "whileLoop ?w ?a 0 initialVars = whileLoop ?w ?a 1 v1"
    using whileLoop_step[of initialVars 0 ?a ?w v1] b1
    by (simp add: initial_fields example_args_fields)
  have b2: "attemptBody ?w ?a 2 v1
      = (v1\<lparr> vErrorMessage := Some txtNoSessionId, vFinalStatus := u16 ''error'' \<rparr>, True)"
    using nos by (simp add: attemptBody_unfold)
  have w2: "whileLoop ?w ?a 1 v1
      = (2, v1\<lparr> vErrorMessage := Some txtNoSessionId, vFinalStatus := u16 ''error'' \<rparr>)"
    using whileLoop_leave[of v1 1 ?a ?w] b2 c(4)
    by (simp add: example_args_fields)
  from w1 w2 have f: "whileLoop ?w ?a 0 initialVars
      = (2, v1\<lparr> vErrorMessage := Some txtNoSessionId, vFinalStatus := u16 ''error'' \<rparr>)"
    by simp
  note rf = report_fields[OF f]
  have iv: "invocationsOf ?w ?a = [attemptInvocation ?w ?a 1 initialVars]"
    using rf(6) c(2) by (simp add: initial_fields)
  have jv: "judgeCallsOf ?w ?a = [\<lparr> jcAttempt = 1, jcSummary = take 5000 (stdout ?res),
                jcVerdict = judgeVerdict ?w ?a 1 ?res \<rparr>]"
    using rf(7) jc by (simp add: initial_fields)
  have cl: "cleanInvocation (attemptInvocation ?w ?a 1 initialVars)"
    using o by (simp add: cleanInvocation_def)
  have fs: "finalStatus (executeTaskWithRetry ?w ?a) = u16 ''error''"
    using rf(4) by (simp add: example_args_fields)
  show ?thesis
    using rf(1,3) iv jv cl fs
    by (simp add: example_args_fields example_judgeVerdict)
qed

text \<open>
  C2 as stated fails when the initial invocation succeeds without yielding a session id:
  with a ceiling of 3 and a judge that always answers resume, the second attempt finds no
  session id and the run ends after 2 attempts with final status error.
\<close>

theorem retry_ceiling_partial_counterexample:
  \<open>retry (exampleArgs 3) = 3
   \<and> length (invocationsOf
        (exampleWorld runWithoutSession (judgePrinting (u16 ''{"result":"resume"}''))) (exampleArgs 3)) = 1
   \<and> cleanInvocation (hd (invocationsOf
        (exampleWorld runWithoutSession (judgePrinting (u16 ''{"result":"resume"}''))) (exampleArgs 3)))
   \<and> length (judgeCallsOf
        (exampleWorld runWithoutSession (judgePrinting (u16 ''{"result":"resume"}''))) (exampleArgs 3)) = 1
   \<and> result (jcVerdict (hd (judgeCallsOf
        (exampleWorld runWithoutSession (judgePrinting (u16 ''{"result":"resume"}''))) (exampleArgs 3))))
       = u16 ''resume''
   \<and> attempts (executeTaskWithRetry
        (exampleWorld runWithoutSession (judgePrinting (u16 ''{"result":"resume"}''))) (exampleArgs 3)) = 2
   \<and> finalStatus (executeTaskWithRetry
        (exampleWorld runWithoutSession (judgePrinting (u16 ''{"result":"resume"}''))) (exampleArgs 3))
       = u16 ''error''
   \<and> errorMessage (executeTaskWithRetry
        (exampleWorld runWithoutSession (judgePrinting (u16 ''{"result":"resume"}''))) (exampleArgs 3))
       = Some txtNoSessionId\<close>
  by (rule no_session_run)

text \<open>
  C3, at a retry ceiling of 1. The first invocation returns exit status 1. The judge is
  not called, one execution entry is recorded and an error message is set, but the final
  status of the report is partial, not error: the check after the loop finds the ceiling
  reached with the continuation flag still set and overwrites the status.
\<close>

theorem runtime_error_at_ceiling_reports_partial:
  \<open>retry (exampleArgs 1) = 1
   \<and> (\<exists>res. outcome (hd (invocationsOf
          (exampleWorld runFailing (judgePrinting (u16 ''{"result":"done"}''))) (exampleArgs 1)))
          = Inr res \<and> exitCode res = 1)
   \<and> judgeCallsOf (exampleWorld runFailing (judgePrinting (u16 ''{"result":"done"}'')))
        (exampleArgs 1) = []
   \<and> attempts (executeTaskWithRetry
        (exampleWorld runFailing (judgePrinting (u16 ''{"result":"done"}''))) (exampleArgs 1)) = 1
   \<and> length (executions (executeTaskWithRetry
        (exampleWorld runFailing (judgePrinting (u16 ''{"result":"done"}''))) (exampleArgs 1))) = 1
   \<and> errorMessage (executeTaskWithRetry
        (exampleWorld runFailing (judgePrinting (u16 ''{"result":"done"}''))) (exampleArgs 1)) \<noteq> None
   \<and> finalStatus (executeTaskWithRetry
        (exampleWorld runFailing (judgePrinting (u16 ''{"result":"done"}''))) (exampleArgs 1))
       = u16 ''partial''
   \<and> u16 ''partial'' \<noteq> u16 ''error''\<close>
proof -
  let ?w = \<open>exampleWorld runFailing (judgePrinting (u16 ''{"result":"done"}''))\<close>
  let ?a = "exampleArgs 1"
  have r: "1 \<le> retry ?a" by (simp add: example_args_fields)
  note fi = example_first_invocation[OF r, of ?w]
  from example_invocation_failing[of _ ?a 1 initialVars] obtain res where
    o: "outcome (attemptInvocation ?w ?a 1 initialVars) = Inr res" and x: "exitCode res = 1"
    by blast
  from fi have k: "0 < length (invocationsOf ?w ?a)" by simp
  from fi o have o0: "outcome (invocationsOf ?w ?a ! 0) = Inr res" by simp
  from x have e: "exitCode res \<noteq> 0 \<or> stderr res \<noteq> []" by simp
  note rl = runtime_error_is_last[OF k o0 e]
  from rl(7) have j: "judgeCallsOf ?w ?a = []" by simp
  have ne: "u16 ''partial'' \<noteq> u16 ''error''" by (simp add: u16_def)
  from fi o x have h: "\<exists>res. outcome (hd (invocationsOf ?w ?a)) = Inr res \<and> exitCode res = 1"
    by simp
  from rl(2,3,4,6) j h ne show ?thesis
    by (simp add: example_args_fields)
qed

theorem rejected_invocation_stops_loop_witness:
  \<open>procEnd runTimingOut = TimerExpired
   \<and> signals (runCursorAgentInitial exampleHost (\<lambda>call. runTimingOut) (u16 ''fix the bug'')
         (u16 ''m1'') [] 30) = [SIGTERM]
   \<and> signals (runCursorAgentResume exampleHost (\<lambda>call. runTimingOut) (u16 ''m1'') (u16 ''s1'')
         txtContinue 30) = [SIGTERM]
   \<and> retry (exampleArgs 3) = 3
   \<and> outcome (invocationsOf
        (exampleWorld runTimingOut (judgePrinting (u16 ''{"result":"resume"}''))) (exampleArgs 3) ! 0)
       = Inl (txtTimeoutHead @ showInt 30 @ txtTimeoutMinutes)
   \<and> length (invocationsOf
        (exampleWorld runTimingOut (judgePrinting (u16 ''{"result":"resume"}''))) (exampleArgs 3)) = 1
   \<and> attempts (executeTaskWithRetry
        (exampleWorld runTimingOut (judgePrinting (u16 ''{"result":"resume"}''))) (exampleArgs 3)) = 1
   \<and> errorMessage (executeTaskWithRetry
        (exampleWorld runTimingOut (judgePrinting (u16 ''{"result":"resume"}''))) (exampleArgs 3))
       = Some (txtTimeoutHead @ showInt 30 @ txtTimeoutMinutes)
   \<and> sessionIdOf
        (exampleWorld runTimingOut (judgePrinting (u16 ''{"result":"resume"}''))) (exampleArgs 3)
       = None\<close>
proof -
  let ?w = \<open>exampleWorld runTimingOut (judgePrinting (u16 ''{"result":"resume"}''))\<close>
  let ?a = "exampleArgs 3"
  let ?msg = "txtTimeoutHead @ showInt 30 @ txtTimeoutMinutes"
  have r: "1 \<le> retry ?a" by (simp add: example_args_fields)
  note fi = example_first_invocation[OF r, of ?w]
  have p: "procEnd runTimingOut = TimerExpired" by (rule run_fields)
  from fi have k: "0 < length (invocationsOf ?w ?a)" by simp
  from fi example_invocation_timing_out[of _ ?a 1 initialVars]
  have o: "outcome (invocationsOf ?w ?a ! 0) = Inl ?msg"
    by (simp add: example_args_fields)
  from rejected_invocation_stops_loop[where env = "\<lambda>call. runTimingOut" and h = exampleHost
      and p = "u16 ''fix the bug''" and m = "u16 ''m1''" and args = "[]" and tm = 30
      and sid = "u16 ''s1''" and instr = txtContinue and k = 0 and w = ?w and a = ?a
      and msg = ?msg] p k o
  show ?thesis
    by (simp add: example_args_fields latestSessionId_def)
qed

text \<open>
  C5 as stated fails: with a ceiling of 3, a first invocation that times out is the only
  invocation of the run, which ends after 1 attempt.
\<close>

theorem rejected_invocation_stops_loop_counterexample:
  \<open>retry (exampleArgs 3) = 3
   \<and> signals (hd (invocationsOf
        (exampleWorld runTimingOut (judgePrinting (u16 ''{"result":"resume"}''))) (exampleArgs 3)))
       = [SIGTERM]
   \<and> outcome (hd (invocationsOf
        (exampleWorld runTimingOut (judgePrinting (u16 ''{"result":"resume"}''))) (exampleArgs 3)))
       = Inl (txtTimeoutHead @ showInt 30 @ txtTimeoutMinutes)
   \<and> length (invocationsOf
        (exampleWorld runTimingOut (judgePrinting (u16 ''{"result":"resume"}''))) (exampleArgs 3)) = 1
   \<and> attempts (executeTaskWithRetry
        (exampleWorld runTimingOut (judgePrinting (u16 ''{"result":"resume"}''))) (exampleArgs 3)) = 1\<close>
proof -
  let ?w = \<open>exampleWorld runTimingOut (judgePrinting (u16 ''{"result":"resume"}''))\<close>
  let ?a = "exampleArgs 3"
  let ?msg = "txtTimeoutHead @ showInt 30 @ txtTimeoutMinutes"
  have r: "1 \<le> retry ?a" by (simp add: example_args_fields)
  note fi = example_first_invocation[OF r, of ?w]
  from fi have k: "0 < length (invocationsOf ?w ?a)" by simp
  note t = example_invocation_timing_out[of _ ?a 1 initialVars]
  from fi t have o: "outcome (invocationsOf ?w ?a ! 0) = Inl ?msg"
    by (simp add: example_args_fields)
  note rl = rejected_is_last[OF k o]
  from fi t rl(1,2) show ?thesis
    by (simp add: example_args_fields)
qed

theorem resume_follows_verdict_witness:
  \<open>length (invocationsOf
        (exampleWorld runWithSession (judgePrinting (u16 ''{"result":"auto"}''))) (exampleArgs 2)) = 2
   \<and> returnedSessionId (invocationsOf
        (exampleWorld runWithSession (judgePrinting (u16 ''{"result":"auto"}''))) (exampleArgs 2) ! 0)
       = Some (u16 ''s1'')
   \<and> result (jcVerdict (judgeCallsOf
        (exampleWorld runWithSession (judgePrinting (u16 ''{"result":"auto"}''))) (exampleArgs 2) ! 0))
       = u16 ''auto''
   \<and> spawnArgs (spawned (invocationsOf
        (exampleWorld runWithSession (judgePrinting (u16 ''{"result":"auto"}''))) (exampleArgs 2) ! 1))
       = [u16 ''--model'', u16 ''m1'', u16 ''--resume='' @ u16 ''s1'', u16 ''--print'',
          u16 ''--output-format'', u16 ''stream-json'', u16 ''--force'', txtApplySuggestion]
   \<and> command (spawned (invocationsOf
        (exampleWorld runWithSession (judgePrinting (u16 ''{"result":"auto"}''))) (exampleArgs 2) ! 1))
       = u16 ''cursor-agent''
   \<and> stdinWritten (spawned (invocationsOf
        (exampleWorld runWithSession (judgePrinting (u16 ''{"result":"auto"}''))) (exampleArgs 2) ! 1))
       = None\<close>
proof -
  let ?w = \<open>exampleWorld runWithSession (judgePrinting (u16 ''{"result":"auto"}''))\<close>
  let ?a = "exampleArgs 2"
  have r: "1 \<le> retry ?a" by (simp add: example_args_fields)
  have cl: "\<forall>c \<in> set (invocationsOf ?w ?a). cleanInvocation c"
    using example_session_run by blast
  have co: "\<forall>c \<in> set (judgeCallsOf ?w ?a). continuing (hostOf ?w) (jcVerdict c)"
    using example_auto_verdicts[of runWithSession ?a]
    by (simp add: example_world_fields example_continuing)
  note fi = example_first_invocation[OF r, of ?w]
  have fr: "returnedSessionId (hd (invocationsOf ?w ?a)) \<noteq> None"
    using fi by (simp add: example_clean_with_session)
  from ceiling_run[OF r cl co fr] have len: "length (invocationsOf ?w ?a) = 2"
    by (simp add: example_args_fields)
  from fi have s0: "returnedSessionId (invocationsOf ?w ?a ! 0) = Some (u16 ''s1'')"
    by (simp add: example_clean_with_session)
  from len have i: "1 \<le> (1::nat) \<and> 1 < length (invocationsOf ?w ?a)" by simp
  from resume_follows_verdict[of 1 ?w ?a, THEN conjunct1] i
  have j: "1 - 1 < length (judgeCallsOf ?w ?a)"
    and sh: "\<exists>sid. returnedSessionId (invocationsOf ?w ?a ! (1 - 1)) = Some sid \<and> sid \<noteq> []
          \<and> spawnArgs (spawned (invocationsOf ?w ?a ! 1))
              = [u16 ''--model'', model ?a, u16 ''--resume='' @ sid, u16 ''--print'',
                 u16 ''--output-format'', u16 ''stream-json'', u16 ''--force'',
                 (if result (jcVerdict (judgeCallsOf ?w ?a ! (1 - 1))) = u16 ''auto''
                  then txtApplySuggestion else txtContinue)]"
    and cm: "command (spawned (invocationsOf ?w ?a ! 1)) = u16 ''cursor-agent''"
    and si: "stdinWritten (spawned (invocationsOf ?w ?a ! 1)) = None"
    by blast+
  from j have "judgeCallsOf ?w ?a ! 0 \<in> set (judgeCallsOf ?w ?a)" by simp
  with example_auto_verdicts[of runWithSession ?a]
  have v: "result (jcVerdict (judgeCallsOf ?w ?a ! 0)) = u16 ''auto''" by simp
  from sh s0 v have "spawnArgs (spawned (invocationsOf ?w ?a ! 1))
       = [u16 ''--model'', u16 ''m1'', u16 ''--resume='' @ u16 ''s1'', u16 ''--print'',
          u16 ''--output-format'', u16 ''stream-json'', u16 ''--force'', txtApplySuggestion]"
    by (auto simp: example_args_fields)
  with len s0 v cm si show ?thesis by simp
qed

text \<open>
  C6 as stated fails for a second attempt that holds no session id: with a ceiling of 3,
  a first invocation that succeeds without a session id and a judge that answers resume,
  the run makes 2 attempts and 1 invocation; the second attempt makes none.
\<close>

theorem resume_follows_verdict_counterexample:
  \<open>retry (exampleArgs 3) = 3
   \<and> attempts (executeTaskWithRetry
        (exampleWorld runWithoutSession (judgePrinting (u16 ''{"result":"resume"}''))) (exampleArgs 3)) = 2
   \<and> length (invocationsOf
        (exampleWorld runWithoutSession (judgePrinting (u16 ''{"result":"resume"}''))) (exampleArgs 3)) = 1
   \<and> errorMessage (executeTaskWithRetry
        (exampleWorld runWithoutSession (judgePrinting (u16 ''{"result":"resume"}''))) (exampleArgs 3))
       = Some txtNoSessionId\<close>
  using no_session_run by simp

section \<open>Properties of the task queue\<close>

lemma findByName_Some:
  "findByName n ts = Inr (Some i) \<Longrightarrow>
     i < length ts \<and> get (ts ! i) ''name'' = JStr n
     \<and> (\<forall>j < i. get (ts ! j) ''name'' \<noteq> JStr n)"
proof (induction ts arbitrary: i)
  case Nil
  then show ?case by simp
next
  case (Cons t ts)
  show ?case
  proof (cases "get t ''name'' = JStr n")
    case True
    with Cons.prems have "i = 0" by (auto split: if_splits)
    with True show ?thesis by simp
  next
    case False
    with Cons.prems obtain i' where f: "findByName n ts = Inr (Some i')" and i: "i = Suc i'"
      by (auto split: if_splits sum.splits option.splits)
    from Cons.IH[OF f] False i show ?thesis
      by (auto simp: less_Suc_eq_0_disj)
  qed
qed

lemma findByName_None:
  "\<forall>t \<in> set ts. \<not> nullish t \<and> get t ''name'' \<noteq> JStr n \<Longrightarrow> findByName n ts = Inr None"
  by (induction ts) auto

lemma named_is_object: "get t ''name'' = JStr n \<Longrightarrow> \<exists>kvs. t = JObj kvs"
  by (cases t) auto

lemma applyStatus_clears:
  "st \<noteq> u16 ''error'' \<Longrightarrow> \<not> truthy em \<Longrightarrow>
   get (applyStatus (JObj kvs) st em rp) ''error_message'' = JUndefined
   \<and> get (applyStatus (JObj kvs) st em rp) ''status'' = JStr st"
  by (simp add: applyStatus_def Let_def update_conv' delete_conv' u16_def)

text \<open>
  C9. When no task has the given name the list is returned as it is. Otherwise the list
  keeps its length, at most one position changes, and every task of another name is
  left as it was. When the status is not error and the message is not truthy, the first
  task of the given name afterwards has the new status and no \<open>error_message\<close> property.
\<close>

theorem update_task_status_frame:
  "((\<forall>t \<in> set tasks. \<not> nullish t \<and> get t ''name'' \<noteq> JStr taskName) \<longrightarrow>
      update_task_status tasks taskName st em rp = Inr tasks)
   \<and> (update_task_status tasks' taskName st em rp = Inr ts' \<longrightarrow>
        length ts' = length tasks'
        \<and> (\<exists>i. \<forall>j < length tasks'. j \<noteq> i \<longrightarrow> ts' ! j = tasks' ! j)
        \<and> (\<forall>j < length tasks'. get (tasks' ! j) ''name'' \<noteq> JStr taskName \<longrightarrow>
              ts' ! j = tasks' ! j)
        \<and> (\<forall>i < length tasks'.
              get (tasks' ! i) ''name'' = JStr taskName
              \<and> (\<forall>j < i. get (tasks' ! j) ''name'' \<noteq> JStr taskName)
              \<and> st \<noteq> u16 ''error'' \<and> \<not> truthy em \<longrightarrow>
              get (ts' ! i) ''error_message'' = JUndefined
              \<and> get (ts' ! i) ''status'' = JStr st))"
proof (intro conjI impI)
  assume "\<forall>t \<in> set tasks. \<not> nullish t \<and> get t ''name'' \<noteq> JStr taskName"
  then show "update_task_status tasks taskName st em rp = Inr tasks"
    by (simp add: update_task_status_def findByName_None)
next
  assume u: "update_task_status tasks' taskName st em rp = Inr ts'"
  show "length ts' = length tasks'"
    using u by (auto simp: update_task_status_def split: sum.splits option.splits)
  show "\<exists>i. \<forall>j < length tasks'. j \<noteq> i \<longrightarrow> ts' ! j = tasks' ! j"
  proof (cases "findByName taskName tasks'")
    case (Inl e)
    with u show ?thesis by (simp add: update_task_status_def)
  next
    case (Inr r)
    show ?thesis
    proof (cases r)
      case None
      with Inr u show ?thesis by (simp add: update_task_status_def)
    next
      case (Some i)
      with Inr u have "ts' = tasks'[i := applyStatus (tasks' ! i) st em rp]"
        by (simp add: update_task_status_def)
      then have "\<forall>j < length tasks'. j \<noteq> i \<longrightarrow> ts' ! j = tasks' ! j" by simp
      then show ?thesis ..
    qed
  qed
  show "\<forall>j < length tasks'. get (tasks' ! j) ''name'' \<noteq> JStr taskName \<longrightarrow> ts' ! j = tasks' ! j"
  proof (cases "findByName taskName tasks'")
    case (Inl e)
    with u show ?thesis by (simp add: update_task_status_def)
  next
    case (Inr r)
    show ?thesis
    proof (cases r)
      case None
      with Inr u show ?thesis by (simp add: update_task_status_def)
    next
      case (Some i)
      with Inr have f: "findByName taskName tasks' = Inr (Some i)" by simp
      from findByName_Some[OF f] have nm: "get (tasks' ! i) ''name'' = JStr taskName" by simp
      from f u have t: "ts' = tasks'[i := applyStatus (tasks' ! i) st em rp]"
        by (simp add: update_task_status_def)
      show ?thesis
      proof (intro allI impI)
        fix j
        assume "j < length tasks'" and "get (tasks' ! j) ''name'' \<noteq> JStr taskName"
        with nm have "j \<noteq> i" by auto
        with t show "ts' ! j = tasks' ! j" by simp
      qed
    qed
  qed
  show "\<forall>i < length tasks'.
              get (tasks' ! i) ''name'' = JStr taskName
              \<and> (\<forall>j < i. get (tasks' ! j) ''name'' \<noteq> JStr taskName)
              \<and> st \<noteq> u16 ''error'' \<and> \<not> truthy em \<longrightarrow>
              get (ts' ! i) ''error_message'' = JUndefined
              \<and> get (ts' ! i) ''status'' = JStr st"
  proof (intro allI impI)
    fix i
    assume il: "i < length tasks'"
    assume h: "get (tasks' ! i) ''name'' = JStr taskName
              \<and> (\<forall>j < i. get (tasks' ! j) ''name'' \<noteq> JStr taskName)
              \<and> st \<noteq> u16 ''error'' \<and> \<not> truthy em"
    from u obtain r where fr: "findByName taskName tasks' = Inr r"
      by (auto simp: update_task_status_def split: sum.splits)
    have "r = Some i"
    proof (cases r)
      case None
      with fr u have "ts' = tasks'" by (simp add: update_task_status_def)
      show ?thesis
      proof (rule ccontr)
        have "\<And>ts. findByName taskName ts = Inr None \<Longrightarrow>
                 \<forall>t \<in> set ts. get t ''name'' \<noteq> JStr taskName"
        proof -
          fix ts
          show "findByName taskName ts = Inr None \<Longrightarrow>
                 \<forall>t \<in> set ts. get t ''name'' \<noteq> JStr taskName"
            by (induction ts) (auto split: if_splits sum.splits option.splits)
        qed
        with fr None have "\<forall>t \<in> set tasks'. get t ''name'' \<noteq> JStr taskName" by simp
        with il h show False by auto
      qed
    next
      case (Some i')
      with fr have f: "findByName taskName tasks' = Inr (Some i')" by simp
      note s = findByName_Some[OF f]
      have "\<not> i' < i" using s h by auto
      moreover have "\<not> i < i'" using s h by auto
      ultimately show ?thesis using Some by simp
    qed
    with fr u have t: "ts' = tasks'[i := applyStatus (tasks' ! i) st em rp]"
      by (simp add: update_task_status_def)
    from h named_is_object obtain kvs where "tasks' ! i = JObj kvs" by blast
    with t il h applyStatus_clears[of st em kvs rp]
    show "get (ts' ! i) ''error_message'' = JUndefined \<and> get (ts' ! i) ''status'' = JStr st"
      by simp
  qed
qed

lemma key_facts:
  "u16 ''status'' \<noteq> u16 ''error_message''" "u16 ''error_message'' \<noteq> u16 ''status''"
  "u16 ''name'' \<noteq> u16 ''id''" "u16 ''t1'' \<noteq> u16 ''t2''" "u16 ''t2'' \<noteq> u16 ''t1''"
  "u16 ''t1'' \<noteq> u16 ''t3''" "u16 ''t2'' \<noteq> u16 ''t3''" "u16 ''done'' \<noteq> u16 ''error''"
  by (simp_all add: u16_def)

lemma example_names:
  "get (exampleTasks ! 0) ''name'' = JStr (u16 ''t1'')"
  "get (exampleTasks ! 1) ''name'' = JStr (u16 ''t2'')"
  "get (exampleTasks ! 0) ''error_message'' = JStr (u16 ''boom'')"
  "length exampleTasks = 2"
  "\<not> nullish (exampleTasks ! 0)" "\<not> nullish (exampleTasks ! 1)"
  by (simp_all add: exampleTasks_def exampleTask_def nullish_def u16_def)

lemma example_find:
  "findByName (u16 ''t1'') exampleTasks = Inr (Some 0)"
  by (simp add: exampleTasks_def nullish_def u16_def)

lemma example_apply:
  "applyStatus (exampleTasks ! 0) (u16 ''done'') JNull JUndefined
     = JObj [(u16 ''id'', JNum (u16 ''1'')), (u16 ''name'', JStr (u16 ''t1'')),
             (u16 ''prompt'', JStr (u16 ''do it'')), (u16 ''status'', JStr (u16 ''done''))]"
  by (simp add: exampleTasks_def applyStatus_def u16_def)

lemma example_update:
  "update_task_status exampleTasks (u16 ''t1'') (u16 ''done'') JNull JUndefined
     = Inr [JObj [(u16 ''id'', JNum (u16 ''1'')), (u16 ''name'', JStr (u16 ''t1'')),
                  (u16 ''prompt'', JStr (u16 ''do it'')), (u16 ''status'', JStr (u16 ''done''))],
            exampleTask (u16 ''t2'') (JNum (u16 ''2''))]"
  unfolding update_task_status_def example_find
  by (simp add: example_apply) (simp add: exampleTasks_def)

theorem update_task_status_frame_witness:
  "update_task_status exampleTasks (u16 ''t3'') (u16 ''done'') JNull JUndefined = Inr exampleTasks
   \<and> get (exampleTasks ! 0) ''error_message'' = JStr (u16 ''boom'')
   \<and> update_task_status exampleTasks (u16 ''t1'') (u16 ''done'') JNull JUndefined
       = Inr [JObj [(u16 ''id'', JNum (u16 ''1'')), (u16 ''name'', JStr (u16 ''t1'')),
                    (u16 ''prompt'', JStr (u16 ''do it'')), (u16 ''status'', JStr (u16 ''done''))],
              exampleTask (u16 ''t2'') (JNum (u16 ''2''))]
   \<and> [JObj [(u16 ''id'', JNum (u16 ''1'')), (u16 ''name'', JStr (u16 ''t1'')),
             (u16 ''prompt'', JStr (u16 ''do it'')), (u16 ''status'', JStr (u16 ''done''))],
       exampleTask (u16 ''t2'') (JNum (u16 ''2''))] ! 1 = exampleTasks ! 1
   \<and> get ([JObj [(u16 ''id'', JNum (u16 ''1'')), (u16 ''name'', JStr (u16 ''t1'')),
                  (u16 ''prompt'', JStr (u16 ''do it'')), (u16 ''status'', JStr (u16 ''done''))],
            exampleTask (u16 ''t2'') (JNum (u16 ''2''))] ! 0) ''error_message'' = JUndefined
   \<and> get ([JObj [(u16 ''id'', JNum (u16 ''1'')), (u16 ''name'', JStr (u16 ''t1'')),
                  (u16 ''prompt'', JStr (u16 ''do it'')), (u16 ''status'', JStr (u16 ''done''))],
            exampleTask (u16 ''t2'') (JNum (u16 ''2''))] ! 0) ''status'' = JStr (u16 ''done'')"
proof -
  let ?ts' = "[JObj [(u16 ''id'', JNum (u16 ''1'')), (u16 ''name'', JStr (u16 ''t1'')),
                    (u16 ''prompt'', JStr (u16 ''do it'')), (u16 ''status'', JStr (u16 ''done''))],
              exampleTask (u16 ''t2'') (JNum (u16 ''2''))]"
  have h1: "\<forall>t \<in> set exampleTasks. \<not> nullish t \<and> get t ''name'' \<noteq> JStr (u16 ''t3'')"
    by (simp add: exampleTasks_def exampleTask_def nullish_def u16_def)
  note par = update_task_status_frame[of exampleTasks "u16 ''t3''" "u16 ''done''" JNull JUndefined
      exampleTasks ?ts']
  from par h1
  have a: "update_task_status exampleTasks (u16 ''t3'') (u16 ''done'') JNull JUndefined
             = Inr exampleTasks"
    by (rule conjunct1[THEN mp])
  note par' = update_task_status_frame[of exampleTasks "u16 ''t1''" "u16 ''done''" JNull JUndefined
      exampleTasks ?ts', THEN conjunct2, THEN mp, OF example_update]
  from par' have oth: "\<forall>j < length exampleTasks. get (exampleTasks ! j) ''name'' \<noteq> JStr (u16 ''t1'')
      \<longrightarrow> ?ts' ! j = exampleTasks ! j"
    by (elim conjE)
  from par' have clr: "\<forall>i < length exampleTasks.
              get (exampleTasks ! i) ''name'' = JStr (u16 ''t1'')
              \<and> (\<forall>j < i. get (exampleTasks ! j) ''name'' \<noteq> JStr (u16 ''t1''))
              \<and> u16 ''done'' \<noteq> u16 ''error'' \<and> \<not> truthy JNull \<longrightarrow>
              get (?ts' ! i) ''error_message'' = JUndefined
              \<and> get (?ts' ! i) ''status'' = JStr (u16 ''done'')"
    by (elim conjE)
  have l1: "1 < length exampleTasks" by (simp add: example_names)
  have n1: "get (exampleTasks ! 1) ''name'' \<noteq> JStr (u16 ''t1'')"
    by (simp only: example_names) (simp add: key_facts)
  from oth[rule_format, OF l1 n1] have b: "?ts' ! 1 = exampleTasks ! 1" .
  from clr[rule_format, of 0]
  have c: "get (?ts' ! 0) ''error_message'' = JUndefined
              \<and> get (?ts' ! 0) ''status'' = JStr (u16 ''done'')"
    by (simp add: example_names key_facts)
  from a example_names(3) example_update b c show ?thesis by (intro conjI) simp_all
qed
























lemma example_tasks_unfold:
  "exampleTasks ! 0 = JObj [(u16 ''id'', JNum (u16 ''1'')), (u16 ''name'', JStr (u16 ''t1'')),
            (u16 ''prompt'', JStr (u16 ''do it'')), (u16 ''status'', JStr (u16 ''error'')),
            (u16 ''error_message'', JStr (u16 ''boom''))]"
  "exampleTasks ! 1 = exampleTask (u16 ''t2'') (JNum (u16 ''2''))"
  by (simp_all add: exampleTasks_def)




















end
